theory Spec2Isabelle
  imports Main "HOL-Library.Word"
begin

section \<open>The playback engine of Playslave-C++ (audio/audio_output.cpp)\<close>

text \<open>
  The theory embeds the member functions of \<^verbatim>\<open>AudioOutput\<close>: the decode-and-fill path
  (\<^verbatim>\<open>Update\<close>, \<^verbatim>\<open>PreFillRingBuffer\<close>, \<^verbatim>\<open>SeekToPositionMicroseconds\<close>) and the
  PortAudio callback (\<^verbatim>\<open>paCallbackFun\<close> and its steps). Every member function becomes a
  function on an explicit engine state; \<^verbatim>\<open>throw\<close> and a failing \<^verbatim>\<open>assert\<close> are values of
  a sum type. Bytes are \<open>8 word\<close>, the play position is a \<open>64 word\<close>
  (\<^verbatim>\<open>std::uint64_t\<close>, so \<^verbatim>\<open>+=\<close> wraps), the frame counts of the callback are
  \<open>64 word\<close> too (\<^verbatim>\<open>unsigned long\<close>), and sample and byte counts that are bounded by a
  frame length or a buffer capacity are natural numbers.
\<close>

type_synonym byte = "8 word"
type_synonym u64 = "64 word"

subsection \<open>Errors\<close>

text \<open>
  \<^verbatim>\<open>InternalError\<close> is the exception thrown by \<^verbatim>\<open>WriteToRingBuffer\<close>;
  \<^verbatim>\<open>AssertionFailure\<close> is the abort of a failing \<^verbatim>\<open>assert\<close>.
\<close>

datatype error = InternalError string | AssertionFailure

definition MSG_OUTPUT_RINGWRITE :: string where
  "MSG_OUTPUT_RINGWRITE = ''Ring buffer write error''"

subsection \<open>The ring buffer interface\<close>

text \<open>
  \<^verbatim>\<open>AudioOutput\<close> reaches its ring buffer through the pointer \<^verbatim>\<open>ring_buf\<close> and only
  calls the five methods below; the headers that declare them
  (ringbuffer/ringbuffer_pa.hpp and ringbuffer/ringbuffer_boost.hpp, one chosen at build
  time) are not among the sources, so the methods are a parameter of every function that
  uses them. \<open>'r\<close> is the buffer's state. Counts are
  in elements of one sample each. \<open>Write r src n\<close> receives the bytes found from the
  source pointer on and returns the written count with the new buffer; \<open>Read r n\<close>
  returns the read count and the bytes it stored at the destination pointer, with the
  new buffer.
\<close>

record 'r RingBuffer =
  WriteCapacity :: "'r \<Rightarrow> nat"
  ReadCapacity :: "'r \<Rightarrow> nat"
  Write :: "'r \<Rightarrow> byte list \<Rightarrow> nat \<Rightarrow> nat \<times> 'r"
  Read :: "'r \<Rightarrow> nat \<Rightarrow> (nat \<times> byte list) \<times> 'r"
  Flush :: "'r \<Rightarrow> 'r"

subsection \<open>The decoder\<close>

text \<open>
  Modelled from the spec: the class \<^verbatim>\<open>AudioDecoder\<close> (audio/audio_decoder.hpp is not
  among the sources). Section 6 of the specification gives its interface: \<^verbatim>\<open>Decode\<close>
  yields the next frame, an empty frame signalling exhaustion; a seek repositions it; two
  conversions relate time and sample counts; two conversions relate sample and byte
  counts through the format's fixed number of bytes per sample. A decoder is the sequence
  of frames its successive \<^verbatim>\<open>Decode\<close> calls yield, with the index of the next one;
  \<open>seek_index\<close> is the index decoding resumes at after a seek. Decoder failures
  (exceptions of its own) are outside the model.
\<close>

record AudioDecoder =
  frames :: "nat \<Rightarrow> byte list"
  next_frame :: nat
  bytes_per_sample :: nat
  seek_index :: "int \<Rightarrow> nat"
  sample_count_for_time :: "int \<Rightarrow> u64"
  time_for_sample_count :: "u64 \<Rightarrow> int"

definition Decode :: "AudioDecoder \<Rightarrow> byte list \<times> AudioDecoder" where
  "Decode d = (frames d (next_frame d), d\<lparr>next_frame := Suc (next_frame d)\<rparr>)"

definition av_SeekToPositionMicroseconds :: "AudioDecoder \<Rightarrow> int \<Rightarrow> AudioDecoder" where
  "av_SeekToPositionMicroseconds d microseconds = d\<lparr>next_frame := seek_index d microseconds\<rparr>"

definition av_SampleCountForPositionMicroseconds :: "AudioDecoder \<Rightarrow> int \<Rightarrow> u64" where
  "av_SampleCountForPositionMicroseconds d microseconds = sample_count_for_time d microseconds"

definition av_PositionMicrosecondsForSampleCount :: "AudioDecoder \<Rightarrow> u64 \<Rightarrow> int" where
  "av_PositionMicrosecondsForSampleCount d samples = time_for_sample_count d samples"

definition av_ByteCountForSampleCount :: "AudioDecoder \<Rightarrow> nat \<Rightarrow> nat" where
  "av_ByteCountForSampleCount d samples = samples * bytes_per_sample d"

definition av_SampleCountForByteCount :: "AudioDecoder \<Rightarrow> nat \<Rightarrow> nat" where
  "av_SampleCountForByteCount d bytes = bytes div bytes_per_sample d"

subsection \<open>The engine state\<close>

text \<open>
  The fields of \<^verbatim>\<open>AudioOutput\<close>. \<open>frame_iterator\<close> is the offset of the C++ iterator
  from \<^verbatim>\<open>frame.begin()\<close>, so \<^verbatim>\<open>frame.begin()\<close> is offset \<open>0\<close> and \<^verbatim>\<open>frame.end()\<close> is
  offset \<open>length (frame s)\<close>. The output stream is not part of the state: none of
  the functions below touches it.
\<close>

record 'r AudioOutput =
  av :: AudioDecoder
  ring_buf :: 'r
  position_sample_count :: u64
  frame :: "byte list"
  frame_iterator :: nat
  file_ended :: bool

definition CurrentPositionMicroseconds :: "'r AudioOutput \<Rightarrow> int" where
  "CurrentPositionMicroseconds s =
     av_PositionMicrosecondsForSampleCount (av s) (position_sample_count s)"

definition ByteCountForSampleCount :: "'r AudioOutput \<Rightarrow> nat \<Rightarrow> nat" where
  "ByteCountForSampleCount s samples = av_ByteCountForSampleCount (av s) samples"

definition SampleCountForByteCount :: "'r AudioOutput \<Rightarrow> nat \<Rightarrow> nat" where
  "SampleCountForByteCount s bytes = av_SampleCountForByteCount (av s) bytes"

definition ClearFrame :: "'r AudioOutput \<Rightarrow> 'r AudioOutput" where
  "ClearFrame s = s\<lparr>frame := [], frame_iterator := 0, file_ended := False\<rparr>"

definition FrameFinished :: "'r AudioOutput \<Rightarrow> bool" where
  "FrameFinished s = (length (frame s) \<le> frame_iterator s)"

definition FileEnded :: "'r AudioOutput \<Rightarrow> bool" where
  "FileEnded s = file_ended s"

definition RingBufferWriteCapacity :: "'r RingBuffer \<Rightarrow> 'r AudioOutput \<Rightarrow> nat" where
  "RingBufferWriteCapacity rb s = WriteCapacity rb (ring_buf s)"

subsection \<open>The decode-and-fill path\<close>

definition DecodeIfFrameEmpty :: "'r AudioOutput \<Rightarrow> error + bool \<times> 'r AudioOutput" where
  "DecodeIfFrameEmpty s =
     (if frame s \<noteq> [] \<and> FrameFinished s then Inl AssertionFailure
      else
        let s1 = (if FrameFinished s
                  then (case Decode (av s) of
                          (f, d) \<Rightarrow> s\<lparr>av := d, frame := f, frame_iterator := 0\<rparr>)
                  else s)
        in Inr (frame s1 \<noteq> [], s1))"

definition RingBufferTransferCount :: "'r RingBuffer \<Rightarrow> 'r AudioOutput \<Rightarrow> error + nat" where
  "RingBufferTransferCount rb s =
     (if frame s = [] then Inl AssertionFailure
      else if length (frame s) < frame_iterator s then Inl AssertionFailure
      else
        let bytes = length (frame s) - frame_iterator s;
            samples = SampleCountForByteCount s bytes
        in Inr (min samples (RingBufferWriteCapacity rb s)))"

definition AdvanceFrameIterator :: "'r AudioOutput \<Rightarrow> nat \<Rightarrow> error + 'r AudioOutput" where
  "AdvanceFrameIterator s sample_count =
     (let byte_count = ByteCountForSampleCount s sample_count
      in if byte_count < sample_count then Inl AssertionFailure
         else if byte_count = 0 then Inl AssertionFailure
         else
           let s1 = s\<lparr>frame_iterator := frame_iterator s + byte_count\<rparr>;
               s2 = (if FrameFinished s1 then ClearFrame s1 else s1)
           in if frame s2 = [] \<or>
                 (0 < frame_iterator s2 \<and> frame_iterator s2 < length (frame s2))
              then Inr s2 else Inl AssertionFailure)"

definition WriteToRingBuffer :: "'r RingBuffer \<Rightarrow> 'r AudioOutput \<Rightarrow> nat \<Rightarrow> error + 'r AudioOutput" where
  "WriteToRingBuffer rb s sample_count =
     (if sample_count = 0 then Inl AssertionFailure
      else
        case Write rb (ring_buf s) (drop (frame_iterator s) (frame s)) sample_count of
          (written_count, r) \<Rightarrow>
            if written_count \<noteq> sample_count then Inl (InternalError MSG_OUTPUT_RINGWRITE)
            else if written_count = 0 then Inl AssertionFailure
            else AdvanceFrameIterator (s\<lparr>ring_buf := r\<rparr>) written_count)"

definition WriteAllAvailableToRingBuffer :: "'r RingBuffer \<Rightarrow> 'r AudioOutput \<Rightarrow> error + 'r AudioOutput" where
  "WriteAllAvailableToRingBuffer rb s =
     (case RingBufferTransferCount rb s of
        Inl e \<Rightarrow> Inl e
      | Inr count \<Rightarrow> if 0 < count then WriteToRingBuffer rb s count else Inr s)"

definition Update :: "'r RingBuffer \<Rightarrow> 'r AudioOutput \<Rightarrow> error + bool \<times> 'r AudioOutput" where
  "Update rb s =
     (case DecodeIfFrameEmpty s of
        Inl e \<Rightarrow> Inl e
      | Inr (more_frames_available, s1) \<Rightarrow>
          (case (if more_frames_available
                 then (if frame s1 = [] then Inl AssertionFailure
                       else WriteAllAvailableToRingBuffer rb s1)
                 else Inr s1) of
             Inl e \<Rightarrow> Inl e
           | Inr s2 \<Rightarrow>
               Inr (more_frames_available, s2\<lparr>file_ended := \<not> more_frames_available\<rparr>)))"

definition SeekToPositionMicroseconds :: "'r RingBuffer \<Rightarrow> 'r AudioOutput \<Rightarrow> int \<Rightarrow> 'r AudioOutput" where
  "SeekToPositionMicroseconds rb s microseconds =
     (let s1 = s\<lparr>av := av_SeekToPositionMicroseconds (av s) microseconds\<rparr>;
          s2 = s1\<lparr>position_sample_count :=
                    av_SampleCountForPositionMicroseconds (av s1) microseconds\<rparr>;
          s3 = ClearFrame s2
      in s3\<lparr>ring_buf := Flush rb (ring_buf s3)\<rparr>)"

subsection \<open>Pre-filling\<close>

text \<open>
  \<^verbatim>\<open>RINGBUF_SIZE\<close> and \<^verbatim>\<open>SPINUP_SIZE\<close> come from constants.h, which is not among the
  sources: they are parameters. The subtraction \<^verbatim>\<open>RINGBUF_SIZE - c\<close> is done on
  \<^verbatim>\<open>std::uint64_t\<close> and wraps.
\<close>

definition u64_sub :: "nat \<Rightarrow> nat \<Rightarrow> nat" where
  "u64_sub a b = unat ((of_nat a :: u64) - of_nat b)"

text \<open>
  The \<^verbatim>\<open>while\<close> loop of \<^verbatim>\<open>PreFillRingBuffer\<close>, on its variables \<^verbatim>\<open>more\<close> (here \<open>more0\<close>, as
  \<open>more\<close> is taken by the record package) and \<^verbatim>\<open>c\<close>.
  The loop has no bound of its own, so it is a partial function: \<open>None\<close> is a loop that
  never ends. An exception of \<^verbatim>\<open>Update\<close> leaves the loop.
\<close>

partial_function (option) PreFillLoop ::
  "'r RingBuffer \<Rightarrow> nat \<Rightarrow> nat \<Rightarrow> bool \<Rightarrow> nat \<Rightarrow> 'r AudioOutput
     \<Rightarrow> (error + bool \<times> nat \<times> 'r AudioOutput) option" where
  "PreFillLoop rb RINGBUF_SIZE SPINUP_SIZE more0 c s =
     (if more0 \<and> 0 < c \<and> u64_sub RINGBUF_SIZE c < SPINUP_SIZE
      then (case Update rb s of
              Inl e \<Rightarrow> Some (Inl e)
            | Inr (more1, s1) \<Rightarrow>
                PreFillLoop rb RINGBUF_SIZE SPINUP_SIZE more1 (RingBufferWriteCapacity rb s1) s1)
      else Some (Inr (more0, c, s)))"

text \<open>
  \<^verbatim>\<open>PreFillRingBuffer\<close> returns nothing; the model returns the final values of \<^verbatim>\<open>more\<close>
  and \<^verbatim>\<open>c\<close> with the state, so that the exit condition can be read off.
\<close>

definition PreFillRingBuffer ::
  "'r RingBuffer \<Rightarrow> nat \<Rightarrow> nat \<Rightarrow> 'r AudioOutput \<Rightarrow> (error + bool \<times> nat \<times> 'r AudioOutput) option" where
  "PreFillRingBuffer rb RINGBUF_SIZE SPINUP_SIZE s =
     PreFillLoop rb RINGBUF_SIZE SPINUP_SIZE True (RingBufferWriteCapacity rb s) s"

text \<open>
  To speak of each pass of the loop: \<open>PreFillPass\<close> is the loop body,
  \<^verbatim>\<open>more = Update(); c = RingBufferWriteCapacity();\<close>, on the loop variables and the
  engine, and \<open>PreFillPasses rb i x\<close> is what \<open>i\<close> passes of the body make of \<open>x\<close>,
  whatever the loop condition says.
\<close>

definition PreFillPass ::
  "'r RingBuffer \<Rightarrow> bool \<times> nat \<times> 'r AudioOutput \<Rightarrow> error + bool \<times> nat \<times> 'r AudioOutput" where
  "PreFillPass rb x =
     (case Update rb (snd (snd x)) of
        Inl e \<Rightarrow> Inl e
      | Inr (more1, s1) \<Rightarrow> Inr (more1, RingBufferWriteCapacity rb s1, s1))"

fun PreFillPasses ::
  "'r RingBuffer \<Rightarrow> nat \<Rightarrow> bool \<times> nat \<times> 'r AudioOutput \<Rightarrow> error + bool \<times> nat \<times> 'r AudioOutput" where
  "PreFillPasses rb 0 x = Inr x"
| "PreFillPasses rb (Suc i) x =
     (case PreFillPass rb x of Inl e \<Rightarrow> Inl e | Inr y \<Rightarrow> PreFillPasses rb i y)"

subsection \<open>A concrete ring buffer\<close>

text \<open>
  Modelled from the spec: the class behind \<^verbatim>\<open>ConcreteRingBuffer\<close> (ringbuffer/ringbuffer_pa.hpp
  is not among the sources). Section 4.1 of the specification: a store of fixed capacity,
  counted in elements of a fixed number of bytes; \<^verbatim>\<open>Write\<close> copies up to \<open>count\<close>
  elements into the free space and returns the number written; \<^verbatim>\<open>Read\<close> copies up to
  \<open>count\<close> unread elements out and returns their number; \<^verbatim>\<open>Flush\<close> discards the
  content. The unread elements are kept oldest first.
\<close>

record ConcreteRingBuffer =
  rb_size :: nat
  rb_elem :: nat
  rb_data :: "byte list list"

definition chop :: "nat \<Rightarrow> nat \<Rightarrow> byte list \<Rightarrow> byte list list" where
  "chop e n src = map (\<lambda>i. take e (drop (i * e) src)) [0..<n]"

definition crb_WriteCapacity :: "ConcreteRingBuffer \<Rightarrow> nat" where
  "crb_WriteCapacity r = rb_size r - length (rb_data r)"

definition crb_ReadCapacity :: "ConcreteRingBuffer \<Rightarrow> nat" where
  "crb_ReadCapacity r = length (rb_data r)"

definition crb_Write :: "ConcreteRingBuffer \<Rightarrow> byte list \<Rightarrow> nat \<Rightarrow> nat \<times> ConcreteRingBuffer" where
  "crb_Write r src count =
     (let n = min count (crb_WriteCapacity r)
      in (n, r\<lparr>rb_data := rb_data r @ chop (rb_elem r) n src\<rparr>))"

definition crb_Read :: "ConcreteRingBuffer \<Rightarrow> nat \<Rightarrow> (nat \<times> byte list) \<times> ConcreteRingBuffer" where
  "crb_Read r count =
     (let n = min count (crb_ReadCapacity r)
      in ((n, concat (take n (rb_data r))), r\<lparr>rb_data := drop n (rb_data r)\<rparr>))"

definition crb_Flush :: "ConcreteRingBuffer \<Rightarrow> ConcreteRingBuffer" where
  "crb_Flush r = r\<lparr>rb_data := []\<rparr>"

definition crb :: "ConcreteRingBuffer RingBuffer" where
  "crb = \<lparr>WriteCapacity = crb_WriteCapacity, ReadCapacity = crb_ReadCapacity,
          Write = crb_Write, Read = crb_Read, Flush = crb_Flush\<rparr>"

text \<open>
  The constructor of \<^verbatim>\<open>AudioOutput\<close>: a ring buffer of \<open>2 ^ RINGBUF_POWER\<close> elements of
  \<^verbatim>\<open>ByteCountForSampleCount(1)\<close> bytes, position zero, and \<^verbatim>\<open>ClearFrame\<close>. The decoder is
  handed over already opened.
\<close>

definition AudioOutput_new :: "AudioDecoder \<Rightarrow> nat \<Rightarrow> ConcreteRingBuffer AudioOutput" where
  "AudioOutput_new d RINGBUF_POWER =
     ClearFrame \<lparr>av = d,
                 ring_buf = \<lparr>rb_size = 2 ^ RINGBUF_POWER,
                             rb_elem = av_ByteCountForSampleCount d 1,
                             rb_data = []\<rparr>,
                 position_sample_count = 0,
                 frame = [], frame_iterator = 0, file_ended = False\<rparr>"

text \<open>
  The fill path and the callback run on two threads. A write of the fill thread that
  lands between two steps of one callback invocation is modelled in the buffer: the state
  pairs the store with the blocks the producer is about to write, and each \<^verbatim>\<open>Read\<close> is
  followed by the producer's next block.
\<close>

definition racing_Read ::
  "ConcreteRingBuffer \<times> byte list list \<Rightarrow> nat
     \<Rightarrow> (nat \<times> byte list) \<times> ConcreteRingBuffer \<times> byte list list" where
  "racing_Read rp count =
     (case crb_Read (fst rp) count of
        (res, r) \<Rightarrow>
          (case snd rp of
             [] \<Rightarrow> (res, r, [])
           | w # ws \<Rightarrow> (res, snd (crb_Write r w (length w div rb_elem r)), ws)))"

definition racing :: "(ConcreteRingBuffer \<times> byte list list) RingBuffer" where
  "racing = \<lparr>WriteCapacity = (\<lambda>rp. crb_WriteCapacity (fst rp)),
             ReadCapacity = (\<lambda>rp. crb_ReadCapacity (fst rp)),
             Write = (\<lambda>rp src count.
                        case crb_Write (fst rp) src count of (n, r) \<Rightarrow> (n, r, snd rp)),
             Read = racing_Read,
             Flush = (\<lambda>rp. (crb_Flush (fst rp), snd rp))\<rparr>"

text \<open>
  The interface lets \<^verbatim>\<open>Write\<close> and \<^verbatim>\<open>Read\<close> return less than they were asked for.
  \<open>short m\<close> is the concrete buffer with transfers of at most \<open>m\<close> elements a call.
\<close>

definition short :: "nat \<Rightarrow> ConcreteRingBuffer RingBuffer" where
  "short m = crb\<lparr>Write := (\<lambda>r src count. crb_Write r src (min count m)),
                 Read := (\<lambda>r count. crb_Read r (min count m))\<rparr>"

subsection \<open>The PortAudio callback\<close>

text \<open>
  The driver's destination buffer is a list of bytes, and a \<^verbatim>\<open>char *\<close> into it is an
  offset. \<open>poke mem p bs\<close> stores \<open>bs\<close> from offset \<open>p\<close> on, as \<^verbatim>\<open>memcpy\<close> and
  \<^verbatim>\<open>memset\<close> do.
\<close>

definition poke :: "byte list \<Rightarrow> nat \<Rightarrow> byte list \<Rightarrow> byte list" where
  "poke mem p bs = take p mem @ bs @ drop (p + length bs) mem"

datatype PaStreamCallbackResult = paContinue | paComplete | paAbort

text \<open>
  The frames requested (\<^verbatim>\<open>frames_per_buf\<close>) and the frames supplied so far (the second
  component of a step result) are \<^verbatim>\<open>unsigned long\<close>: 64 bits on an LP64 platform, with
  subtraction and addition that wrap. The capacities are the counts of the ring buffer
  interface.
\<close>

type_synonym ulong = "64 word"

type_synonym PlayCallbackStepResult = "PaStreamCallbackResult \<times> ulong"

text \<open>\<^verbatim>\<open>LONG_MAX\<close> of an LP64 platform.\<close>

definition LONG_MAX :: nat where
  "LONG_MAX = 2 ^ 63 - 1"

text \<open>
  \<^verbatim>\<open>ReadSamplesToOutput\<close> takes its pointer by reference: the model returns the
  advanced pointer as the second component. The pointer is a \<^verbatim>\<open>char *\<close> and is advanced
  by the count that \<^verbatim>\<open>Read\<close> returns. The transfer count is at most \<^verbatim>\<open>LONG_MAX\<close>, so
  the casts to \<^verbatim>\<open>long\<close> and back leave it as it is.
\<close>

definition ReadSamplesToOutput ::
  "'r RingBuffer \<Rightarrow> nat \<Rightarrow> nat \<Rightarrow> ulong \<Rightarrow> byte list \<Rightarrow> 'r AudioOutput
     \<Rightarrow> nat \<times> nat \<times> byte list \<times> 'r AudioOutput" where
  "ReadSamplesToOutput rb output output_capacity buffered_count mem s =
     (let transfer_sample_count = min output_capacity (min (unat buffered_count) LONG_MAX)
      in case Read rb (ring_buf s) transfer_sample_count of
           ((read_count, bytes), r) \<Rightarrow>
             (transfer_sample_count,
              output + read_count,
              poke mem output bytes,
              s\<lparr>ring_buf := r,
                position_sample_count :=
                  position_sample_count s + of_nat transfer_sample_count\<rparr>))"

text \<open>
  \<^verbatim>\<open>PlayCallbackSuccess\<close> receives \<^verbatim>\<open>out\<close> by value: the pointer that
  \<^verbatim>\<open>ReadSamplesToOutput\<close> advanced is its own copy and is dropped on return.
\<close>

definition PlayCallbackSuccess ::
  "'r RingBuffer \<Rightarrow> nat \<Rightarrow> nat \<Rightarrow> ulong \<Rightarrow> PlayCallbackStepResult \<Rightarrow> byte list \<Rightarrow> 'r AudioOutput
     \<Rightarrow> PlayCallbackStepResult \<times> byte list \<times> 'r AudioOutput" where
  "PlayCallbackSuccess rb out avail frames_per_buf inp mem s =
     (let samples_pa_wants = frames_per_buf - snd inp
      in case ReadSamplesToOutput rb out avail samples_pa_wants mem s of
           (samples_read, out1, mem1, s1) \<Rightarrow>
             ((paContinue, snd inp + of_nat samples_read), mem1, s1))"

definition PlayCallbackFailure ::
  "'r RingBuffer \<Rightarrow> nat \<Rightarrow> nat \<Rightarrow> ulong \<Rightarrow> PlayCallbackStepResult \<Rightarrow> byte list \<Rightarrow> 'r AudioOutput
     \<Rightarrow> PlayCallbackStepResult \<times> byte list \<times> 'r AudioOutput" where
  "PlayCallbackFailure rb out avail frames_per_buf inp mem s =
     (if FileEnded s then ((paComplete, snd inp), mem, s)
      else ((paContinue, frames_per_buf),
            poke mem out (replicate (ByteCountForSampleCount s (unat frames_per_buf)) 0),
            s))"

definition PlayCallbackStep ::
  "'r RingBuffer \<Rightarrow> nat \<Rightarrow> ulong \<Rightarrow> PlayCallbackStepResult \<Rightarrow> byte list \<Rightarrow> 'r AudioOutput
     \<Rightarrow> PlayCallbackStepResult \<times> byte list \<times> 'r AudioOutput" where
  "PlayCallbackStep rb out frames_per_buf inp mem s =
     (let avail = ReadCapacity rb (ring_buf s)
      in if avail = 0 then PlayCallbackFailure rb out avail frames_per_buf inp mem s
         else PlayCallbackSuccess rb out avail frames_per_buf inp mem s)"

text \<open>
  The \<^verbatim>\<open>while\<close> loop of \<^verbatim>\<open>paCallbackFun\<close>. Every step is handed the same pointer
  \<^verbatim>\<open>cout\<close>. The loop ends: a step either completes, or supplies the whole request, or
  supplies at least one frame more and no more than were still requested.
\<close>

function paCallbackLoop ::
  "'r RingBuffer \<Rightarrow> nat \<Rightarrow> ulong \<Rightarrow> PlayCallbackStepResult \<Rightarrow> byte list \<Rightarrow> 'r AudioOutput
     \<Rightarrow> PlayCallbackStepResult \<times> byte list \<times> 'r AudioOutput" where
  "paCallbackLoop rb cout frames_per_buf result mem s =
     (if fst result = paContinue \<and> snd result < frames_per_buf
      then (case PlayCallbackStep rb cout frames_per_buf result mem s of
              (result1, mem1, s1) \<Rightarrow> paCallbackLoop rb cout frames_per_buf result1 mem1 s1)
      else (result, mem, s))"
  by pat_completeness auto

termination paCallbackLoop
proof (relation "measure (\<lambda>(rb, cout, n, result, mem, s).
                   if fst result = paContinue then Suc (unat n - unat (snd result)) else 0)")
  fix rb :: "'a RingBuffer" and cout :: nat and n :: ulong
    and result x :: PlayCallbackStepResult
    and mem xa :: "byte list" and s ya :: "'a AudioOutput" and y
  assume c: "fst result = paContinue \<and> snd result < n"
    and "(x, y) = PlayCallbackStep rb cout n result mem s"
    and "(xa, ya) = y"
  then have st: "PlayCallbackStep rb cout n result mem s = (x, xa, ya)"
    by simp
  from c have lt: "unat (snd result) < unat n"
    by (simp add: word_less_nat_alt)
  then have wants: "unat (n - snd result) = unat n - unat (snd result)"
    by (simp add: unat_sub word_le_nat_alt)
  have "(fst x = paComplete) \<or>
        (fst x = paContinue \<and> unat (snd result) < unat (snd x) \<and> unat (snd x) \<le> unat n)"
  proof (cases "ReadCapacity rb (ring_buf s) = 0")
    case True
    with st lt show ?thesis
      by (auto simp: PlayCallbackStep_def PlayCallbackFailure_def split: if_splits)
  next
    case False
    define t where "t = min (ReadCapacity rb (ring_buf s)) (min (unat (n - snd result)) LONG_MAX)"
    from False lt have t0: "0 < t" and tle: "t \<le> unat n - unat (snd result)"
      unfolding t_def wants by (simp_all add: LONG_MAX_def)
    have "unat n < 2 ^ 64"
      using unsigned_less [of n, where ?'a = nat] by simp
    with tle lt have tsmall: "unat (snd result) + t < 2 ^ 64" by simp
    then have "t < 2 ^ 64" by simp
    then have ut: "unat (of_nat t :: ulong) = t"
      by (simp add: unat_of_nat take_bit_nat_eq_self)
    with tsmall have sum: "unat (snd result + of_nat t) = unat (snd result) + t"
      by (simp add: unat_word_ariths take_bit_nat_eq_self)
    from st False have "x = (paContinue, snd result + of_nat t)"
      by (auto simp: PlayCallbackStep_def PlayCallbackSuccess_def ReadSamplesToOutput_def
          Let_def t_def split: prod.splits)
    with sum t0 tle lt show ?thesis by simp
  qed
  with c lt show "((rb, cout, n, x, xa, ya), (rb, cout, n, result, mem, s))
          \<in> measure (\<lambda>(rb, cout, n, result, mem, s).
                   if fst result = paContinue then Suc (unat n - unat (snd result)) else 0)"
    by auto
qed simp

declare paCallbackLoop.simps [simp del]

text \<open>
  \<^verbatim>\<open>paCallbackFun\<close> returns \<^verbatim>\<open>result.first\<close>; the model returns it with the destination
  buffer and the engine state the call leaves behind.
\<close>

definition paCallbackFun ::
  "'r RingBuffer \<Rightarrow> byte list \<Rightarrow> ulong \<Rightarrow> 'r AudioOutput
     \<Rightarrow> PaStreamCallbackResult \<times> byte list \<times> 'r AudioOutput" where
  "paCallbackFun rb mem frames_per_buf s =
     (case paCallbackLoop rb 0 frames_per_buf (paContinue, 0) mem s of
        (result, mem1, s1) \<Rightarrow> (fst result, mem1, s1))"

subsection \<open>Example engines\<close>

text \<open>
  A decoder of 16-bit mono samples at 40 kHz (two bytes and 25 microseconds a sample)
  that yields the frames \<open>fs\<close>.
\<close>

definition example_decoder :: "(nat \<Rightarrow> byte list) \<Rightarrow> AudioDecoder" where
  "example_decoder fs =
     \<lparr>frames = fs, next_frame = 0, bytes_per_sample = 2, seek_index = (\<lambda>t. 0),
      sample_count_for_time = (\<lambda>t. word_of_int (t div 25)),
      time_for_sample_count = (\<lambda>n. uint n * 25)\<rparr>"

text \<open>
  The worked example of the specification: a buffer of eight samples, two bytes a sample,
  and a decoder that yields one frame of five samples and is then exhausted.
  \<open>five_filled\<close> is the engine after the first \<^verbatim>\<open>Update\<close>, \<open>five_ended\<close> after the
  second, \<open>five_drained\<close> after the callback has read the five samples.
\<close>

definition one_frame_of_five :: "nat \<Rightarrow> byte list" where
  "one_frame_of_five n = (if n = 0 then [1, 2, 3, 4, 5, 6, 7, 8, 9, 10] else [])"

definition five_new :: "ConcreteRingBuffer AudioOutput" where
  "five_new = AudioOutput_new (example_decoder one_frame_of_five) 3"

definition five_filled :: "ConcreteRingBuffer AudioOutput" where
  "five_filled =
     five_new\<lparr>av := (av five_new)\<lparr>next_frame := 1\<rparr>,
              ring_buf := (ring_buf five_new)
                 \<lparr>rb_data := [[1, 2], [3, 4], [5, 6], [7, 8], [9, 10]]\<rparr>\<rparr>"

definition five_ended :: "ConcreteRingBuffer AudioOutput" where
  "five_ended = five_filled\<lparr>av := (av five_new)\<lparr>next_frame := 2\<rparr>, file_ended := True\<rparr>"

definition five_drained :: "ConcreteRingBuffer AudioOutput" where
  "five_drained = five_ended\<lparr>ring_buf := (ring_buf five_new)\<lparr>rb_data := []\<rparr>,
                              position_sample_count := 5\<rparr>"

text \<open>
  The same decoder on a buffer of four samples: \<open>four_full\<close> is the engine after the
  first \<^verbatim>\<open>Update\<close>, which fills the buffer with four of the five samples.
\<close>

definition four_new :: "ConcreteRingBuffer AudioOutput" where
  "four_new = AudioOutput_new (example_decoder one_frame_of_five) 2"

definition four_full :: "ConcreteRingBuffer AudioOutput" where
  "four_full =
     four_new\<lparr>av := (av four_new)\<lparr>next_frame := 1\<rparr>,
              ring_buf := (ring_buf four_new)\<lparr>rb_data := [[1, 2], [3, 4], [5, 6], [7, 8]]\<rparr>,
              frame := [1, 2, 3, 4, 5, 6, 7, 8, 9, 10], frame_iterator := 8\<rparr>"

text \<open>A destination buffer of six frames, holding bytes that are not audio.\<close>

definition out6 :: "byte list" where
  "out6 = [241, 242, 243, 244, 245, 246, 247, 248, 249, 250, 251, 252]"

text \<open>
  A buffer of one sample and a decoder that never runs dry: \<open>tiny_full\<close> is the engine
  after the first \<^verbatim>\<open>Update\<close>, \<open>tiny_stalled\<close> after the second.
\<close>

definition tiny_new :: "ConcreteRingBuffer AudioOutput" where
  "tiny_new = AudioOutput_new (example_decoder (\<lambda>n. [1, 2])) 0"

definition tiny_full :: "ConcreteRingBuffer AudioOutput" where
  "tiny_full =
     tiny_new\<lparr>av := (av tiny_new)\<lparr>next_frame := 1\<rparr>,
              ring_buf := (ring_buf tiny_new)\<lparr>rb_data := [[1, 2]]\<rparr>\<rparr>"

definition tiny_stalled :: "ConcreteRingBuffer AudioOutput" where
  "tiny_stalled =
     tiny_full\<lparr>av := (av tiny_new)\<lparr>next_frame := 2\<rparr>, frame := [1, 2], frame_iterator := 0\<rparr>"

text \<open>A destination buffer of two frames.\<close>

definition out2 :: "byte list" where
  "out2 = [241, 242, 243, 244]"

text \<open>
  An engine in mid-play on the buffer with a producer: one sample is buffered and the
  fill thread is about to write the next one. \<open>racing_done\<close> is the engine after a
  callback for two frames.
\<close>

definition racing_start :: "(ConcreteRingBuffer \<times> byte list list) AudioOutput" where
  "racing_start =
     \<lparr>av = example_decoder (\<lambda>n. [3, 4]),
      ring_buf = (\<lparr>rb_size = 8, rb_elem = 2, rb_data = [[1, 2]]\<rparr>, [[3, 4]]),
      position_sample_count = 0, frame = [], frame_iterator = 0, file_ended = False\<rparr>"

definition racing_done :: "(ConcreteRingBuffer \<times> byte list list) AudioOutput" where
  "racing_done =
     racing_start\<lparr>ring_buf := (\<lparr>rb_size = 8, rb_elem = 2, rb_data = []\<rparr>, []),
                  position_sample_count := 2\<rparr>"

text \<open>
  A decoder whose frames are three bytes long, one sample and a half: \<open>stuck_spinning\<close>
  is the engine after the first \<^verbatim>\<open>Update\<close>.
\<close>

definition stuck_new :: "ConcreteRingBuffer AudioOutput" where
  "stuck_new = AudioOutput_new (example_decoder (\<lambda>n. [1, 2, 3])) 3"

definition stuck_spinning :: "ConcreteRingBuffer AudioOutput" where
  "stuck_spinning =
     stuck_new\<lparr>av := (av stuck_new)\<lparr>next_frame := 1\<rparr>,
               ring_buf := (ring_buf stuck_new)\<lparr>rb_data := [[1, 2]]\<rparr>,
               frame := [1, 2, 3], frame_iterator := 2\<rparr>"

subsection \<open>Conditions on the collaborators\<close>

text \<open>
  The format has at least one byte a sample, what is left of the current frame is a whole
  number of samples, and so is every frame the decoder has yet to yield.
\<close>

definition frame_whole :: "'r AudioOutput \<Rightarrow> bool" where
  "frame_whole s =
     (0 < bytes_per_sample (av s) \<and>
      (frame s = [] \<or>
       (frame_iterator s < length (frame s) \<and>
        bytes_per_sample (av s) dvd (length (frame s) - frame_iterator s))) \<and>
      (\<forall>i \<ge> next_frame (av s). bytes_per_sample (av s) dvd length (frames (av s) i)))"

text \<open>
  The contract of \<^verbatim>\<open>Write\<close> in section 4.1 of the specification: a request that is
  positive and within the write capacity is written in full, and uses up free space.
\<close>

definition write_honoured :: "'r RingBuffer \<Rightarrow> bool" where
  "write_honoured rb =
     (\<forall>r src n. 0 < n \<and> n \<le> WriteCapacity rb r
        \<longrightarrow> fst (Write rb r src n) = n \<and>
            WriteCapacity rb (snd (Write rb r src n)) < WriteCapacity rb r)"

text \<open>
  The capacity invariant of sections 3 and 8 of the specification, for \<^verbatim>\<open>Write\<close>: a
  request that is positive and within the write capacity leaves the sum of the read
  capacity and the write capacity, the total capacity, as it is.
\<close>

definition write_accounted :: "'r RingBuffer \<Rightarrow> bool" where
  "write_accounted rb =
     (\<forall>r src n. 0 < n \<and> n \<le> WriteCapacity rb r
        \<longrightarrow> ReadCapacity rb (snd (Write rb r src n)) + WriteCapacity rb (snd (Write rb r src n))
            = ReadCapacity rb r + WriteCapacity rb r)"


section \<open>Properties\<close>

subsection \<open>Unfolding and evaluation\<close>

lemmas fill_defs = Update_def DecodeIfFrameEmpty_def WriteAllAvailableToRingBuffer_def
  WriteToRingBuffer_def AdvanceFrameIterator_def RingBufferTransferCount_def
  RingBufferWriteCapacity_def FrameFinished_def ClearFrame_def Decode_def
  ByteCountForSampleCount_def SampleCountForByteCount_def
  av_ByteCountForSampleCount_def av_SampleCountForByteCount_def

lemmas crb_defs = crb_def crb_WriteCapacity_def crb_ReadCapacity_def crb_Write_def crb_Read_def
  crb_Flush_def chop_def

lemmas callback_defs = PlayCallbackStep_def PlayCallbackSuccess_def PlayCallbackFailure_def
  ReadSamplesToOutput_def FileEnded_def poke_def LONG_MAX_def ByteCountForSampleCount_def
  av_ByteCountForSampleCount_def

lemmas five_defs = five_new_def five_filled_def five_ended_def five_drained_def
  AudioOutput_new_def ClearFrame_def example_decoder_def one_frame_of_five_def
  av_ByteCountForSampleCount_def

lemmas tiny_defs = tiny_new_def tiny_full_def tiny_stalled_def
  AudioOutput_new_def ClearFrame_def example_decoder_def av_ByteCountForSampleCount_def

lemmas stuck_defs = stuck_new_def stuck_spinning_def
  AudioOutput_new_def ClearFrame_def example_decoder_def av_ByteCountForSampleCount_def

lemmas racing_defs = racing_def racing_Read_def racing_start_def racing_done_def
  example_decoder_def out2_def

lemma replicate_4: "replicate 4 x = [x, x, x, x]"
  by (simp add: numeral_eq_Suc)

lemma upt_5: "[0..<5] = [0, 1, 2, 3, 4]"
  by (simp add: upt_rec)

lemma upt_4: "[0..<4] = [0, 1, 2, 3]"
  by (simp add: upt_rec)

lemmas four_defs = four_new_def four_full_def
  AudioOutput_new_def ClearFrame_def example_decoder_def one_frame_of_five_def
  av_ByteCountForSampleCount_def

lemma four_Update_1: "Update crb four_new = Inr (True, four_full)"
  by (simp add: fill_defs crb_defs four_defs Let_def upt_4)

lemma five_Update_1: "Update crb five_new = Inr (True, five_filled)"
  by (simp add: fill_defs crb_defs five_defs Let_def upt_5)

lemma five_Update_2: "Update crb five_filled = Inr (False, five_ended)"
  by (simp add: fill_defs crb_defs five_defs Let_def)

lemma five_step_1:
  "PlayCallbackStep crb 0 6 (paContinue, 0) out6 five_ended =
     ((paContinue, 5), [1, 2, 3, 4, 5, 6, 7, 8, 9, 10, 251, 252], five_drained)"
  by (simp add: callback_defs crb_defs five_defs out6_def)

lemma tiny_Update_1: "Update crb tiny_new = Inr (True, tiny_full)"
  by (simp add: fill_defs crb_defs tiny_defs Let_def)

lemma tiny_Update_2: "Update crb tiny_full = Inr (True, tiny_stalled)"
  by (simp add: fill_defs crb_defs tiny_defs Let_def)

lemma stuck_Update_1: "Update crb stuck_new = Inr (True, stuck_spinning)"
  by (simp add: fill_defs crb_defs stuck_defs Let_def)

lemma stuck_Update_2: "Update crb stuck_spinning = Inr (True, stuck_spinning)"
  by (simp add: fill_defs crb_defs stuck_defs Let_def)

lemma u64_sub_examples:
  "u64_sub 8 7 = 1" "u64_sub 8 8 = 0" "u64_sub 8 3 = 5" "u64_sub 4 4 = 0"
  by (simp_all add: u64_sub_def)

subsection \<open>Where the internal error comes from\<close>

lemma AdvanceFrameIterator_not_InternalError:
  "AdvanceFrameIterator s n \<noteq> Inl (InternalError m)"
  by (simp add: AdvanceFrameIterator_def Let_def)

lemma WriteToRingBuffer_InternalError:
  "(WriteToRingBuffer rb s n = Inl (InternalError m)) =
     (n \<noteq> 0 \<and> m = MSG_OUTPUT_RINGWRITE \<and>
      fst (Write rb (ring_buf s) (drop (frame_iterator s) (frame s)) n) \<noteq> n)"
  by (auto simp: WriteToRingBuffer_def AdvanceFrameIterator_not_InternalError
      split: prod.splits)

lemma RingBufferTransferCount_not_InternalError:
  "RingBufferTransferCount rb s \<noteq> Inl (InternalError m)"
  by (simp add: RingBufferTransferCount_def Let_def)

lemma RingBufferTransferCount_le:
  "RingBufferTransferCount rb s = Inr count \<Longrightarrow> count \<le> WriteCapacity rb (ring_buf s)"
  by (auto simp: RingBufferTransferCount_def RingBufferWriteCapacity_def Let_def
      split: if_splits)

lemma WriteAllAvailableToRingBuffer_InternalError:
  "(WriteAllAvailableToRingBuffer rb s = Inl (InternalError m)) =
     (\<exists>count. RingBufferTransferCount rb s = Inr count \<and> 0 < count \<and>
        m = MSG_OUTPUT_RINGWRITE \<and>
        fst (Write rb (ring_buf s) (drop (frame_iterator s) (frame s)) count) \<noteq> count)"
  by (cases "RingBufferTransferCount rb s")
     (auto simp: WriteAllAvailableToRingBuffer_def WriteToRingBuffer_InternalError
        RingBufferTransferCount_not_InternalError)

lemma DecodeIfFrameEmpty_not_InternalError:
  "DecodeIfFrameEmpty s \<noteq> Inl (InternalError m)"
  by (simp add: DecodeIfFrameEmpty_def Let_def)

lemma DecodeIfFrameEmpty_more:
  "DecodeIfFrameEmpty s = Inr (b, s1) \<Longrightarrow> b = (frame s1 \<noteq> [])"
  by (auto simp: DecodeIfFrameEmpty_def Let_def split: if_splits)

lemma Update_InternalError:
  "(Update rb s = Inl (InternalError m)) =
     (m = MSG_OUTPUT_RINGWRITE \<and>
      (\<exists>s1 count. DecodeIfFrameEmpty s = Inr (True, s1) \<and>
         RingBufferTransferCount rb s1 = Inr count \<and> 0 < count \<and>
         fst (Write rb (ring_buf s1) (drop (frame_iterator s1) (frame s1)) count) \<noteq> count))"
proof (cases "DecodeIfFrameEmpty s")
  case (Inl e)
  then show ?thesis
    using DecodeIfFrameEmpty_not_InternalError [of s m] by (auto simp: Update_def)
next
  case (Inr p)
  obtain b s1 where p: "p = (b, s1)" by (cases p)
  with Inr have d: "DecodeIfFrameEmpty s = Inr (b, s1)" by simp
  from DecodeIfFrameEmpty_more [OF d] have b: "b = (frame s1 \<noteq> [])" .
  show ?thesis
  proof (cases b)
    case True
    with b d have "(Update rb s = Inl (InternalError m)) =
        (WriteAllAvailableToRingBuffer rb s1 = Inl (InternalError m))"
      by (cases "WriteAllAvailableToRingBuffer rb s1") (simp_all add: Update_def)
    with True d show ?thesis
      by (auto simp: WriteAllAvailableToRingBuffer_InternalError)
  next
    case False
    with d show ?thesis by (simp add: Update_def)
  qed
qed

lemma AdvanceFrameIterator_ok:
  assumes "0 < n" and "0 < bytes_per_sample (av s)"
  shows "AdvanceFrameIterator s n =
           Inr (if length (frame s) \<le> frame_iterator s + ByteCountForSampleCount s n
                then s\<lparr>frame := [], frame_iterator := 0, file_ended := False\<rparr>
                else s\<lparr>frame_iterator := frame_iterator s + ByteCountForSampleCount s n\<rparr>)"
  using assms
  by (simp add: AdvanceFrameIterator_def Let_def FrameFinished_def ClearFrame_def
      ByteCountForSampleCount_def av_ByteCountForSampleCount_def)

lemma Update_full_write:
  assumes d: "DecodeIfFrameEmpty s = Inr (True, s1)"
    and c: "RingBufferTransferCount rb s1 = Inr count" and pos: "0 < count"
    and w: "Write rb (ring_buf s1) (drop (frame_iterator s1) (frame s1)) count = (count, r)"
    and bps: "0 < bytes_per_sample (av s1)"
  shows "Update rb s =
           Inr (True,
                if length (frame s1) \<le> frame_iterator s1 + ByteCountForSampleCount s1 count
                then s1\<lparr>ring_buf := r, frame := [], frame_iterator := 0, file_ended := False\<rparr>
                else s1\<lparr>ring_buf := r,
                        frame_iterator := frame_iterator s1 + ByteCountForSampleCount s1 count,
                        file_ended := False\<rparr>)"
proof -
  from DecodeIfFrameEmpty_more [OF d] have ne: "frame s1 \<noteq> []" by simp
  from bps have bps': "0 < bytes_per_sample (av (s1\<lparr>ring_buf := r\<rparr>))" by simp
  have "WriteToRingBuffer rb s1 count = AdvanceFrameIterator (s1\<lparr>ring_buf := r\<rparr>) count"
    using pos w by (simp add: WriteToRingBuffer_def)
  then have "WriteAllAvailableToRingBuffer rb s1 =
             AdvanceFrameIterator (s1\<lparr>ring_buf := r\<rparr>) count"
    using c pos by (simp add: WriteAllAvailableToRingBuffer_def)
  then show ?thesis
    using d ne AdvanceFrameIterator_ok [OF pos bps']
    by (simp add: Update_def ByteCountForSampleCount_def)
qed

subsection \<open>Progress of the fill path\<close>

lemma DecodeIfFrameEmpty_whole:
  assumes "frame_whole s"
  shows "\<exists>s1. DecodeIfFrameEmpty s = Inr (frame s1 \<noteq> [], s1) \<and> frame_whole s1 \<and>
              ring_buf s1 = ring_buf s"
proof (cases "frame s = []")
  case True
  let ?s1 = "s\<lparr>av := (av s)\<lparr>next_frame := Suc (next_frame (av s))\<rparr>,
               frame := frames (av s) (next_frame (av s)), frame_iterator := 0\<rparr>"
  from True have "DecodeIfFrameEmpty s = Inr (frame ?s1 \<noteq> [], ?s1)"
    by (simp add: DecodeIfFrameEmpty_def FrameFinished_def Decode_def)
  moreover from assms have "frame_whole ?s1"
    by (auto simp: frame_whole_def)
  ultimately show ?thesis by (intro exI [of _ ?s1]) simp
next
  case False
  with assms have "DecodeIfFrameEmpty s = Inr (frame s \<noteq> [], s)"
    by (simp add: DecodeIfFrameEmpty_def FrameFinished_def frame_whole_def)
  with assms show ?thesis by (intro exI [of _ s]) simp
qed

lemma whole_samples_pos:
  assumes "0 < (b::nat)" and "b dvd n" and "0 < n"
  shows "0 < n div b"
  using assms by (metis dvd_div_eq_0_iff gr0I less_numeral_extra(3))

lemma Update_whole_cases:
  assumes g: "frame_whole s"
  obtains
    (exhausted) s1 where "Update rb s = Inr (False, s1)" and "frame_whole s1"
      and "ring_buf s1 = ring_buf s"
  | (no_room) s1 where "Update rb s = Inr (True, s1)" and "frame_whole s1"
      and "ring_buf s1 = ring_buf s" and "WriteCapacity rb (ring_buf s) = 0"
  | (written) s1 src count where "Update rb s = Inr (True, s1)" and "frame_whole s1"
      and "0 < count" and "count \<le> WriteCapacity rb (ring_buf s)"
      and "Write rb (ring_buf s) src count = (count, ring_buf s1)"
  | (short_write) src count where "Update rb s = Inl (InternalError MSG_OUTPUT_RINGWRITE)"
      and "0 < count" and "count \<le> WriteCapacity rb (ring_buf s)"
      and "fst (Write rb (ring_buf s) src count) \<noteq> count"
proof -
  from DecodeIfFrameEmpty_whole [OF g] obtain s1 where
    d: "DecodeIfFrameEmpty s = Inr (frame s1 \<noteq> [], s1)" and g1: "frame_whole s1"
    and r1: "ring_buf s1 = ring_buf s" by blast
  show thesis
  proof (cases "frame s1 = []")
    case True
    with d have u: "Update rb s = Inr (False, s1\<lparr>file_ended := True\<rparr>)"
      by (simp add: Update_def)
    from g1 have gw: "frame_whole (s1\<lparr>file_ended := True\<rparr>)"
      by (simp add: frame_whole_def)
    from exhausted [OF u gw] r1 show thesis by simp
  next
    case False
    let ?b = "bytes_per_sample (av s1)"
    let ?rem = "length (frame s1) - frame_iterator s1"
    let ?count = "min (?rem div ?b) (WriteCapacity rb (ring_buf s1))"
    let ?src = "drop (frame_iterator s1) (frame s1)"
    from g1 False have b: "0 < ?b" and lt: "frame_iterator s1 < length (frame s1)"
      and dv: "?b dvd ?rem"
      by (simp_all add: frame_whole_def)
    from lt have "0 < ?rem" by simp
    from whole_samples_pos [OF b dv this] have sp: "0 < ?rem div ?b" .
    have c: "RingBufferTransferCount rb s1 = Inr ?count"
      using False lt
      by (simp add: RingBufferTransferCount_def RingBufferWriteCapacity_def
          SampleCountForByteCount_def av_SampleCountForByteCount_def)
    from d False have d': "DecodeIfFrameEmpty s = Inr (True, s1)" by simp
    show thesis
    proof (cases "WriteCapacity rb (ring_buf s1) = 0")
      case True
      with c have "WriteAllAvailableToRingBuffer rb s1 = Inr s1"
        by (simp add: WriteAllAvailableToRingBuffer_def)
      with d' False have u: "Update rb s = Inr (True, s1\<lparr>file_ended := False\<rparr>)"
        by (simp add: Update_def)
      from g1 have gw: "frame_whole (s1\<lparr>file_ended := False\<rparr>)"
        by (simp add: frame_whole_def)
      from no_room [OF u gw] r1 True show thesis by simp
    next
      case cap: False
      with sp have cp: "0 < ?count" by simp
      have cle: "?count \<le> WriteCapacity rb (ring_buf s)" using r1 by simp
      obtain w r where w: "Write rb (ring_buf s1) ?src ?count = (w, r)"
        by (cases "Write rb (ring_buf s1) ?src ?count")
      show thesis
      proof (cases "w = ?count")
        case False
        with w have "fst (Write rb (ring_buf s1) ?src ?count) \<noteq> ?count" by simp
        with d' c cp have u: "Update rb s = Inl (InternalError MSG_OUTPUT_RINGWRITE)"
          by (subst Update_InternalError) blast
        from False w r1 have "fst (Write rb (ring_buf s) ?src ?count) \<noteq> ?count"
          by simp
        with u cp cle show thesis by (rule short_write)
      next
        case True
        with w have w': "Write rb (ring_buf s1) ?src ?count = (?count, r)" by simp
        let ?s2 = "if length (frame s1) \<le> frame_iterator s1 + ByteCountForSampleCount s1 ?count
                then s1\<lparr>ring_buf := r, frame := [], frame_iterator := 0, file_ended := False\<rparr>
                else s1\<lparr>ring_buf := r,
                        frame_iterator := frame_iterator s1 + ByteCountForSampleCount s1 ?count,
                        file_ended := False\<rparr>"
        from Update_full_write [OF d' c cp w' b] have u: "Update rb s = Inr (True, ?s2)" .
        have bc: "ByteCountForSampleCount s1 ?count = ?count * ?b"
          by (simp add: ByteCountForSampleCount_def av_ByteCountForSampleCount_def)
        have "?b dvd (?rem - ?count * ?b)"
          using dv by (rule dvd_diff_nat) simp
        then have dv2: "?b dvd (length (frame s1) - (frame_iterator s1 + ?count * ?b))"
          by (simp only: diff_diff_left)
        from g1 dv2 have g2: "frame_whole ?s2"
          unfolding bc by (auto simp: frame_whole_def)
        have "ring_buf ?s2 = r" by simp
        with w' r1 have "Write rb (ring_buf s) ?src ?count = (?count, ring_buf ?s2)"
          by simp
        with u g2 cp cle show thesis by (rule written)
      qed
    qed
  qed
qed

lemma Update_no_AssertionFailure:
  assumes "frame_whole s"
  shows "Update rb s \<noteq> Inl AssertionFailure"
  using assms by (cases rule: Update_whole_cases [of s rb]) simp_all

lemma Update_returns:
  assumes g: "frame_whole s" and h: "write_honoured rb"
  shows "\<exists>m s1. Update rb s = Inr (m, s1) \<and> frame_whole s1 \<and>
           (m \<and> 0 < WriteCapacity rb (ring_buf s)
              \<longrightarrow> WriteCapacity rb (ring_buf s1) < WriteCapacity rb (ring_buf s))"
  using g
proof (cases rule: Update_whole_cases [of s rb])
  case (exhausted s1)
  then show ?thesis by blast
next
  case (no_room s1)
  then show ?thesis by auto
next
  case (written s1 src count)
  from h written(3,4)
  have "WriteCapacity rb (snd (Write rb (ring_buf s) src count)) < WriteCapacity rb (ring_buf s)"
    unfolding write_honoured_def by blast
  with written show ?thesis by auto
next
  case (short_write src count)
  from h short_write(2,3) have "fst (Write rb (ring_buf s) src count) = count"
    unfolding write_honoured_def by blast
  with short_write(4) show ?thesis by simp
qed

lemma Update_progress:
  assumes g: "frame_whole s" and h: "write_honoured rb"
    and cap: "0 < WriteCapacity rb (ring_buf s)"
  shows "\<exists>m s1. Update rb s = Inr (m, s1) \<and> frame_whole s1 \<and>
           (m \<longrightarrow> WriteCapacity rb (ring_buf s1) < WriteCapacity rb (ring_buf s))"
  using Update_returns [OF g h] cap by blast

lemma Update_accounted:
  assumes g: "frame_whole s" and h: "write_honoured rb" and acc: "write_accounted rb"
  shows "\<exists>m s1. Update rb s = Inr (m, s1) \<and> frame_whole s1 \<and>
           (m \<and> 0 < WriteCapacity rb (ring_buf s)
              \<longrightarrow> WriteCapacity rb (ring_buf s1) < WriteCapacity rb (ring_buf s)) \<and>
           ReadCapacity rb (ring_buf s1) + WriteCapacity rb (ring_buf s1) =
             ReadCapacity rb (ring_buf s) + WriteCapacity rb (ring_buf s)"
  using g
proof (cases rule: Update_whole_cases [of s rb])
  case (exhausted s1)
  then show ?thesis by auto
next
  case (no_room s1)
  then show ?thesis by auto
next
  case (written s1 src count)
  from h written(3,4)
  have "WriteCapacity rb (snd (Write rb (ring_buf s) src count)) < WriteCapacity rb (ring_buf s)"
    unfolding write_honoured_def by blast
  moreover from acc written(3,4)
  have "ReadCapacity rb (snd (Write rb (ring_buf s) src count)) +
        WriteCapacity rb (snd (Write rb (ring_buf s) src count)) =
        ReadCapacity rb (ring_buf s) + WriteCapacity rb (ring_buf s)"
    unfolding write_accounted_def by blast
  ultimately show ?thesis using written by auto
next
  case (short_write src count)
  from h short_write(2,3) have "fst (Write rb (ring_buf s) src count) = count"
    unfolding write_honoured_def by blast
  with short_write(4) show ?thesis by simp
qed

lemma u64_sub_le: "b \<le> a \<Longrightarrow> a < 2 ^ 64 \<Longrightarrow> u64_sub a b = a - b"
  by (simp add: u64_sub_def unat_sub_if' unat_of_nat word_le_nat_alt take_bit_nat_eq_self)

text \<open>
  The loop of \<^verbatim>\<open>PreFillRingBuffer\<close> from any values of its variables, on a buffer of
  \<open>R\<close> elements: it ends after some number \<open>k\<close> of passes, every pass starts with
  \<^verbatim>\<open>more\<close> set, room in the buffer and less than \<open>S\<close> elements buffered, and at the
  end \<^verbatim>\<open>more\<close> is clear or \<open>S\<close> elements are buffered.
\<close>

lemma PreFillLoop_passes:
  assumes h: "write_honoured rb" and acc: "write_accounted rb"
    and SR: "S \<le> R" and R: "R < 2 ^ 64"
  shows "frame_whole s \<Longrightarrow> c = WriteCapacity rb (ring_buf s) \<Longrightarrow>
         ReadCapacity rb (ring_buf s) + c = R \<Longrightarrow>
         \<exists>k m c' s'. PreFillLoop rb R S more0 c s = Some (Inr (m, c', s')) \<and>
            PreFillPasses rb k (more0, c, s) = Inr (m, c', s') \<and>
            c' = WriteCapacity rb (ring_buf s') \<and>
            ReadCapacity rb (ring_buf s') + c' = R \<and>
            (\<not> m \<or> S \<le> ReadCapacity rb (ring_buf s')) \<and>
            (\<forall>i<k. \<exists>mi ci si. PreFillPasses rb i (more0, c, s) = Inr (mi, ci, si) \<and>
                mi \<and> 0 < ci \<and> ReadCapacity rb (ring_buf si) < S)"
proof (induction c arbitrary: more0 s rule: less_induct)
  case (less c)
  from less.prems have cR: "c \<le> R" by simp
  from u64_sub_le [OF cR R] less.prems(3)
  have filled: "u64_sub R c = ReadCapacity rb (ring_buf s)" by simp
  show ?case
  proof (cases "more0 \<and> 0 < c \<and> u64_sub R c < S")
    case False
    then have "PreFillLoop rb R S more0 c s = Some (Inr (more0, c, s))"
      by (subst PreFillLoop.simps) (rule if_not_P)
    moreover have "PreFillPasses rb 0 (more0, c, s) = Inr (more0, c, s)"
      by simp
    moreover from False filled less.prems(3) SR
    have "\<not> more0 \<or> S \<le> ReadCapacity rb (ring_buf s)"
      by (cases "c = 0") auto
    ultimately show ?thesis
      using less.prems
      by - (rule exI [where x = 0], rule exI [where x = more0],
        rule exI [where x = c], rule exI [where x = s], simp)
  next
    case True
    with filled have start: "more0 \<and> 0 < c \<and> ReadCapacity rb (ring_buf s) < S"
      by simp
    from Update_accounted [OF less.prems(1) h acc] obtain m s1 where
      u: "Update rb s = Inr (m, s1)" and g1: "frame_whole s1"
      and dec: "m \<and> 0 < WriteCapacity rb (ring_buf s)
                  \<longrightarrow> WriteCapacity rb (ring_buf s1) < WriteCapacity rb (ring_buf s)"
      and sum: "ReadCapacity rb (ring_buf s1) + WriteCapacity rb (ring_buf s1) =
                ReadCapacity rb (ring_buf s) + WriteCapacity rb (ring_buf s)"
      by blast
    let ?c1 = "WriteCapacity rb (ring_buf s1)"
    from sum less.prems have sum1: "ReadCapacity rb (ring_buf s1) + ?c1 = R" by simp
    have step: "PreFillLoop rb R S more0 c s = PreFillLoop rb R S m ?c1 s1"
      using True u by (subst PreFillLoop.simps) (simp add: RingBufferWriteCapacity_def)
    have pass: "PreFillPass rb (more0, c, s) = Inr (m, ?c1, s1)"
      using u by (simp add: PreFillPass_def RingBufferWriteCapacity_def)
    have first: "\<exists>mi ci si. PreFillPasses rb 0 (more0, c, s) = Inr (mi, ci, si) \<and>
                   mi \<and> 0 < ci \<and> ReadCapacity rb (ring_buf si) < S"
      using start by auto
    show ?thesis
    proof (cases m)
      case True
      with dec start less.prems have "?c1 < c" by simp
      from less.IH [OF this g1 refl sum1, of m] obtain k m' c' s' where
        l: "PreFillLoop rb R S m ?c1 s1 = Some (Inr (m', c', s'))"
        and p: "PreFillPasses rb k (m, ?c1, s1) = Inr (m', c', s')"
        and c': "c' = WriteCapacity rb (ring_buf s')"
        and s': "ReadCapacity rb (ring_buf s') + c' = R"
        and e: "\<not> m' \<or> S \<le> ReadCapacity rb (ring_buf s')"
        and a: "\<forall>i<k. \<exists>mi ci si. PreFillPasses rb i (m, ?c1, s1) = Inr (mi, ci, si) \<and>
                  mi \<and> 0 < ci \<and> ReadCapacity rb (ring_buf si) < S"
        by blast
      have p': "PreFillPasses rb (Suc k) (more0, c, s) = Inr (m', c', s')"
        using pass p by simp
      have a': "\<forall>i<Suc k. \<exists>mi ci si. PreFillPasses rb i (more0, c, s) = Inr (mi, ci, si) \<and>
                  mi \<and> 0 < ci \<and> ReadCapacity rb (ring_buf si) < S"
      proof (intro allI impI)
        fix i assume i: "i < Suc k"
        show "\<exists>mi ci si. PreFillPasses rb i (more0, c, s) = Inr (mi, ci, si) \<and>
                mi \<and> 0 < ci \<and> ReadCapacity rb (ring_buf si) < S"
        proof (cases i)
          case 0
          with first show ?thesis by auto
        next
          case (Suc j)
          with i have "j < k" by simp
          with a have "\<exists>mi ci si. PreFillPasses rb j (m, ?c1, s1) = Inr (mi, ci, si) \<and>
                         mi \<and> 0 < ci \<and> ReadCapacity rb (ring_buf si) < S"
            by blast
          with Suc pass show ?thesis by simp
        qed
      qed
      from step l p' c' s' e a' show ?thesis by metis
    next
      case False
      then have l: "PreFillLoop rb R S m ?c1 s1 = Some (Inr (False, ?c1, s1))"
        by (subst PreFillLoop.simps) simp
      have p': "PreFillPasses rb (Suc 0) (more0, c, s) = Inr (False, ?c1, s1)"
        using pass False by simp
      have a': "\<forall>i<Suc 0. \<exists>mi ci si. PreFillPasses rb i (more0, c, s) = Inr (mi, ci, si) \<and>
                  mi \<and> 0 < ci \<and> ReadCapacity rb (ring_buf si) < S"
        using first by auto
      from step l p' sum1 a' show ?thesis
        by - (rule exI [where x = "Suc 0"], rule exI [where x = False],
        rule exI [where x = ?c1], rule exI [where x = s1], auto)
    qed
  qed
qed

lemma crb_write_honoured: "write_honoured crb"
  by (auto simp: write_honoured_def crb_defs Let_def)

lemma crb_write_accounted: "write_accounted crb"
  by (auto simp: write_accounted_def crb_defs Let_def)


lemma u64_sub_0: "a < 2 ^ 64 \<Longrightarrow> u64_sub a 0 = a"
  by (simp add: u64_sub_def unat_of_nat take_bit_nat_eq_self)

lemma stuck_loop: "PreFillLoop crb 8 4 True 7 stuck_spinning = None"
proof (cases "PreFillLoop crb 8 4 True 7 stuck_spinning")
  case None
  then show ?thesis .
next
  case (Some y)
  have cap: "RingBufferWriteCapacity crb stuck_spinning = 7"
    by (simp add: RingBufferWriteCapacity_def crb_defs stuck_defs)
  have "\<not> (crb = crb \<and> (8::nat) = 8 \<and> (4::nat) = 4 \<and> True \<and> (7::nat) = 7 \<and>
           stuck_spinning = stuck_spinning)"
  proof (rule PreFillLoop.raw_induct
      [where P = "\<lambda>rb R S m c s y. \<not> (rb = crb \<and> R = 8 \<and> S = 4 \<and> m \<and> c = 7 \<and> s = stuck_spinning)",
        OF _ Some])
    fix f :: "ConcreteRingBuffer RingBuffer \<Rightarrow> nat \<Rightarrow> nat \<Rightarrow> bool \<Rightarrow> nat
                \<Rightarrow> ConcreteRingBuffer AudioOutput
                \<Rightarrow> (error + bool \<times> nat \<times> ConcreteRingBuffer AudioOutput) option"
      and rb R S m c s z
    assume IH: "\<And>R S m c s b y. f R S m c s b = Some y \<Longrightarrow>
                  \<not> (R = crb \<and> S = 8 \<and> m = 4 \<and> c \<and> s = 7 \<and> b = stuck_spinning)"
      and body: "(if m \<and> 0 < c \<and> u64_sub R c < S
                  then case Update rb s of Inl e \<Rightarrow> Some (Inl e)
                       | Inr (more1, s1) \<Rightarrow> f rb R S more1 (RingBufferWriteCapacity rb s1) s1
                  else Some (Inr (m, c, s))) = Some z"
    show "\<not> (rb = crb \<and> R = 8 \<and> S = 4 \<and> m \<and> c = 7 \<and> s = stuck_spinning)"
    proof
      assume a: "rb = crb \<and> R = 8 \<and> S = 4 \<and> m \<and> c = 7 \<and> s = stuck_spinning"
      with body cap have "f crb 8 4 True 7 stuck_spinning = Some z"
        by (simp add: stuck_Update_2 u64_sub_examples)
      from IH [OF this] show False by simp
    qed
  qed
  then show ?thesis by simp
qed

subsection \<open>The fill path\<close>

text \<open>
  Claim C4, as the specification states it: after every \<^verbatim>\<open>Update\<close>, either the frame is
  empty or the cursor lies strictly between the frame's start and its end, never equal to
  the start. This fails when the ring buffer has no room: a frame is decoded, the transfer
  count is zero, the write is skipped and the cursor stays at the start of a non-empty
  frame. Here the buffer holds one sample and the second \<^verbatim>\<open>Update\<close> leaves the cursor
  at the start of the frame it has just decoded.
\<close>

theorem Update_cursor_at_start_counterexample:
  "Update crb tiny_new = Inr (True, tiny_full) \<and>
   Update crb tiny_full = Inr (True, tiny_stalled) \<and>
   frame tiny_stalled \<noteq> [] \<and>
   \<not> (0 < frame_iterator tiny_stalled \<and>
      frame_iterator tiny_stalled < length (frame tiny_stalled))"
  by (simp add: tiny_Update_1 tiny_Update_2) (simp add: tiny_defs)

text \<open>
  Claim C4, amended: after every \<^verbatim>\<open>Update\<close> that returns, either the frame is empty or
  the cursor lies at or after the frame's start and strictly before its end. No
  hypothesis on the state is needed: a state that breaks the frame/cursor invariant on
  entry fails the assertion of \<^verbatim>\<open>DecodeIfFrameEmpty\<close> and does not return.
\<close>

theorem Update_frame_cursor:
  assumes "Update rb s = Inr (b, s')"
  shows "frame s' = [] \<or> (0 \<le> frame_iterator s' \<and> frame_iterator s' < length (frame s'))"
  using assms
  by (auto simp: fill_defs Let_def split: if_splits sum.splits prod.splits)

theorem Update_frame_cursor_witness:
  "Update crb tiny_full = Inr (True, tiny_stalled) \<and>
   (frame tiny_stalled = [] \<or>
    (0 \<le> frame_iterator tiny_stalled \<and>
     frame_iterator tiny_stalled < length (frame tiny_stalled)))"
  using Update_frame_cursor [OF tiny_Update_2] tiny_Update_2 by simp

text \<open>
  Claim C5: \<^verbatim>\<open>Update\<close> throws the internal error exactly when it calls \<^verbatim>\<open>Write\<close> (on a
  non-empty frame, with the strictly positive count that \<^verbatim>\<open>RingBufferTransferCount\<close>
  has capped by the write capacity) and \<^verbatim>\<open>Write\<close> reports another count. When \<^verbatim>\<open>Write\<close>
  reports the full count, for a format of at least one byte a sample, \<^verbatim>\<open>Update\<close> returns
  \<open>True\<close> and the cursor has moved on by the byte count of the samples written, the frame
  being emptied when the cursor has reached its end.
\<close>

theorem Update_internal_error:
  "(Update rb s = Inl (InternalError m)) =
     (m = MSG_OUTPUT_RINGWRITE \<and>
      (\<exists>s1 count. DecodeIfFrameEmpty s = Inr (True, s1) \<and>
         RingBufferTransferCount rb s1 = Inr count \<and> 0 < count \<and>
         count \<le> WriteCapacity rb (ring_buf s1) \<and>
         fst (Write rb (ring_buf s1) (drop (frame_iterator s1) (frame s1)) count) \<noteq> count))
   \<and> (\<forall>s1 count r.
         DecodeIfFrameEmpty s = Inr (True, s1) \<and>
         RingBufferTransferCount rb s1 = Inr count \<and> 0 < count \<and>
         Write rb (ring_buf s1) (drop (frame_iterator s1) (frame s1)) count = (count, r) \<and>
         0 < bytes_per_sample (av s1)
         \<longrightarrow> Update rb s =
               Inr (True,
                    if length (frame s1) \<le> frame_iterator s1 + ByteCountForSampleCount s1 count
                    then s1\<lparr>ring_buf := r, frame := [], frame_iterator := 0,
                            file_ended := False\<rparr>
                    else s1\<lparr>ring_buf := r,
                            frame_iterator :=
                              frame_iterator s1 + ByteCountForSampleCount s1 count,
                            file_ended := False\<rparr>))"
  using Update_InternalError [of rb s m] Update_full_write [of s _ rb _ _]
    RingBufferTransferCount_le [of rb]
  by blast

text \<open>
  The witness: the first \<^verbatim>\<open>Update\<close> of the worked example writes five samples and
  empties the frame; on a buffer that takes one sample a call the same \<^verbatim>\<open>Update\<close>
  throws.
\<close>

theorem Update_internal_error_witness:
  "DecodeIfFrameEmpty five_new =
     Inr (True, five_new\<lparr>av := (av five_new)\<lparr>next_frame := 1\<rparr>,
                         frame := [1, 2, 3, 4, 5, 6, 7, 8, 9, 10], frame_iterator := 0\<rparr>) \<and>
   RingBufferTransferCount crb
     (five_new\<lparr>av := (av five_new)\<lparr>next_frame := 1\<rparr>,
               frame := [1, 2, 3, 4, 5, 6, 7, 8, 9, 10], frame_iterator := 0\<rparr>) = Inr 5 \<and>
   Write crb (ring_buf five_new) [1, 2, 3, 4, 5, 6, 7, 8, 9, 10] 5 = (5, ring_buf five_filled) \<and>
   Update crb five_new = Inr (True, five_filled) \<and>
   fst (Write (short 1) (ring_buf five_new) [1, 2, 3, 4, 5, 6, 7, 8, 9, 10] 5) = 1 \<and>
   Update (short 1) five_new = Inl (InternalError MSG_OUTPUT_RINGWRITE)"
proof -
  let ?s1 = "five_new\<lparr>av := (av five_new)\<lparr>next_frame := 1\<rparr>,
                      frame := [1, 2, 3, 4, 5, 6, 7, 8, 9, 10], frame_iterator := 0\<rparr>"
  have d: "DecodeIfFrameEmpty five_new = Inr (True, ?s1)"
    by (simp add: DecodeIfFrameEmpty_def FrameFinished_def Decode_def five_defs)
  have c: "RingBufferTransferCount crb ?s1 = Inr 5"
    by (simp add: RingBufferTransferCount_def RingBufferWriteCapacity_def
        SampleCountForByteCount_def av_SampleCountForByteCount_def crb_defs five_defs)
  have c1: "RingBufferTransferCount (short 1) ?s1 = Inr 5"
    by (simp add: RingBufferTransferCount_def RingBufferWriteCapacity_def short_def
        SampleCountForByteCount_def av_SampleCountForByteCount_def crb_defs five_defs)
  have w: "Write crb (ring_buf ?s1) (drop (frame_iterator ?s1) (frame ?s1)) 5 =
             (5, ring_buf five_filled)"
    by (simp add: crb_defs five_defs upt_5)
  have w1: "fst (Write (short 1) (ring_buf ?s1) (drop (frame_iterator ?s1) (frame ?s1)) 5) \<noteq> 5"
    by (simp add: short_def crb_defs five_defs)
  have bps: "0 < bytes_per_sample (av ?s1)"
    by (simp add: five_defs)
  have "Update crb five_new = Inr (True, five_filled)"
    using Update_internal_error [of crb five_new MSG_OUTPUT_RINGWRITE, THEN conjunct2,
        rule_format, of ?s1 5 "ring_buf five_filled"] d c w bps
    by (simp add: five_defs ByteCountForSampleCount_def)
  moreover have "\<exists>s1 count. DecodeIfFrameEmpty five_new = Inr (True, s1) \<and>
         RingBufferTransferCount (short 1) s1 = Inr count \<and> 0 < count \<and>
         fst (Write (short 1) (ring_buf s1) (drop (frame_iterator s1) (frame s1)) count) \<noteq> count"
    using d c1 w1 by (intro exI [of _ ?s1] exI [of _ 5]) simp
  then have "Update (short 1) five_new = Inl (InternalError MSG_OUTPUT_RINGWRITE)"
    using Update_internal_error [of "short 1" five_new MSG_OUTPUT_RINGWRITE, THEN conjunct1]
      RingBufferTransferCount_le [of "short 1"]
    by blast
  moreover have "Write crb (ring_buf five_new) [1, 2, 3, 4, 5, 6, 7, 8, 9, 10] 5 =
                   (5, ring_buf five_filled)"
    and "fst (Write (short 1) (ring_buf five_new) [1, 2, 3, 4, 5, 6, 7, 8, 9, 10] 5) = 1"
    by (simp_all add: short_def crb_defs five_defs upt_5)
  ultimately show ?thesis using d c by simp
qed

lemma Update_value:
  assumes "Update rb s = Inr (b, s')"
  shows "b = (\<not> (FrameFinished s \<and> fst (Decode (av s)) = []))" and "file_ended s' = (\<not> b)"
  using assms
  by (auto simp: fill_defs Let_def split: if_splits sum.splits prod.splits)

lemma Update_exhausted:
  assumes "frame s = []" and "fst (Decode (av s)) = []"
  shows "Update rb s =
           Inr (False, s\<lparr>av := snd (Decode (av s)), frame := [], frame_iterator := 0,
                         file_ended := True\<rparr>)"
  using assms by (simp add: fill_defs)

text \<open>
  Claim C7: when the current frame is finished and the decoder's fetch yields an empty
  frame, \<^verbatim>\<open>Update\<close> returns \<open>False\<close> and leaves the stream-ended flag set (first
  conjunct; the state is one the entry assertion of \<^verbatim>\<open>DecodeIfFrameEmpty\<close> accepts).
  Whenever \<^verbatim>\<open>Update\<close> returns, it returns \<open>False\<close> in exactly that case and \<open>True\<close>
  otherwise, and the flag is the negation of the value returned (second conjunct). And
  it does return, with that value, for whole frames and a ring buffer that honours its
  write contract (third conjunct); the one exit of \<^verbatim>\<open>Update\<close> from a well-formed state
  that is not a return is the exception of C5.
\<close>

theorem Update_return_value:
  "((frame s = [] \<or> \<not> FrameFinished s) \<and> FrameFinished s \<and> fst (Decode (av s)) = []
      \<longrightarrow> (\<exists>s'. Update rb s = Inr (False, s') \<and> file_ended s'))
   \<and> (\<forall>b s'. Update rb s = Inr (b, s')
         \<longrightarrow> b = (\<not> (FrameFinished s \<and> fst (Decode (av s)) = [])) \<and>
             file_ended s' = (\<not> b))
   \<and> (frame_whole s \<and> write_honoured rb
         \<longrightarrow> (\<exists>s'. Update rb s = Inr (\<not> (FrameFinished s \<and> fst (Decode (av s)) = []), s')))"
proof (intro conjI impI allI)
  assume "(frame s = [] \<or> \<not> FrameFinished s) \<and> FrameFinished s \<and> fst (Decode (av s)) = []"
  then have "frame s = []" and "fst (Decode (av s)) = []" by auto
  from Update_exhausted [OF this, of rb]
  show "\<exists>s'. Update rb s = Inr (False, s') \<and> file_ended s'" by simp
next
  fix b s' assume "Update rb s = Inr (b, s')"
  then show "b = (\<not> (FrameFinished s \<and> fst (Decode (av s)) = []))"
    and "file_ended s' = (\<not> b)"
    by (rule Update_value)+
next
  assume "frame_whole s \<and> write_honoured rb"
  then obtain m s1 where u: "Update rb s = Inr (m, s1)"
    using Update_returns [of s rb] by blast
  from Update_value(1) [OF u] u
  show "\<exists>s'. Update rb s = Inr (\<not> (FrameFinished s \<and> fst (Decode (av s)) = []), s')"
    by blast
qed

theorem Update_return_value_witness:
  "FrameFinished five_filled \<and> fst (Decode (av five_filled)) = [] \<and>
   Update crb five_filled = Inr (False, five_ended) \<and> file_ended five_ended \<and>
   frame_whole five_new \<and> write_honoured crb \<and>
   \<not> (FrameFinished five_new \<and> fst (Decode (av five_new)) = []) \<and>
   Update crb five_new = Inr (True, five_filled) \<and> \<not> file_ended five_filled"
proof -
  have a: "FrameFinished five_filled \<and> fst (Decode (av five_filled)) = []"
    by (simp add: FrameFinished_def Decode_def five_defs)
  have b: "\<not> (FrameFinished five_new \<and> fst (Decode (av five_new)) = [])"
    by (simp add: FrameFinished_def Decode_def five_defs)
  have w: "frame_whole five_new"
    by (simp add: frame_whole_def five_defs)
  from Update_return_value [of five_filled crb, THEN conjunct2, THEN conjunct1, rule_format,
      OF five_Update_2]
  have c: "file_ended five_ended" by simp
  from Update_return_value [of five_new crb, THEN conjunct2, THEN conjunct1, rule_format,
      OF five_Update_1]
  have d: "\<not> file_ended five_filled" by simp
  from a b c d w crb_write_honoured five_Update_1 five_Update_2 show ?thesis by simp
qed

text \<open>
  Claim C10: when the current frame is empty and the decoder again yields an empty
  frame, \<^verbatim>\<open>Update\<close> returns \<open>False\<close> and the state \<open>s'\<close> it leaves differs from \<open>s\<close> in
  the stream-ended flag only, apart from the decoder having been asked once more: the
  ring buffer is the one of \<open>s\<close> (nothing was written, so both capacities are unchanged),
  the frame is still empty with the cursor at its end, and the play position is
  unchanged. A further \<^verbatim>\<open>Update\<close> on \<open>s'\<close>, the decoder still exhausted, returns
  \<open>False\<close> again and changes nothing but the decoder.
\<close>

theorem Update_exhausted_noop:
  assumes "frame s = []" and "fst (Decode (av s)) = []"
    and "s' = s\<lparr>av := snd (Decode (av s)), frame := [], frame_iterator := 0,
                 file_ended := True\<rparr>"
  shows "Update rb s = Inr (False, s') \<and>
         ring_buf s' = ring_buf s \<and>
         ReadCapacity rb (ring_buf s') = ReadCapacity rb (ring_buf s) \<and>
         WriteCapacity rb (ring_buf s') = WriteCapacity rb (ring_buf s) \<and>
         frame s' = frame s \<and> FrameFinished s' \<and>
         position_sample_count s' = position_sample_count s \<and>
         file_ended s' \<and>
         (fst (Decode (av s')) = []
            \<longrightarrow> Update rb s' = Inr (False, s'\<lparr>av := snd (Decode (av s'))\<rparr>))"
  using assms by (simp add: fill_defs)

theorem Update_exhausted_noop_witness:
  "frame five_filled = [] \<and> fst (Decode (av five_filled)) = [] \<and>
   Update crb five_filled = Inr (False, five_ended) \<and>
   ring_buf five_ended = ring_buf five_filled \<and>
   fst (Decode (av five_ended)) = [] \<and>
   Update crb five_ended = Inr (False, five_ended\<lparr>av := snd (Decode (av five_ended))\<rparr>)"
proof -
  have a: "frame five_filled = []" and b: "fst (Decode (av five_filled)) = []"
    and c: "five_ended = five_filled\<lparr>av := snd (Decode (av five_filled)), frame := [],
                                      frame_iterator := 0, file_ended := True\<rparr>"
    and d: "fst (Decode (av five_ended)) = []"
    by (simp_all add: Decode_def five_defs)
  from Update_exhausted_noop [OF a b c, of crb] a b d show ?thesis by simp
qed

text \<open>
  Claim C6: after \<^verbatim>\<open>SeekToPositionMicroseconds\<close> to any timestamp \<open>t\<close>,
  \<^verbatim>\<open>CurrentPositionMicroseconds\<close> is the decoder's time for the decoder's sample count
  for \<open>t\<close>, the frame is empty (and finished), and the stream-ended flag is clear. The
  ring buffer is the flushed one: it reports a read capacity of zero for every ring
  buffer whose \<^verbatim>\<open>Flush\<close> discards the content, which is the hypothesis, and so without
  any hypothesis for the concrete ring buffer (last conjunct).
\<close>

theorem SeekTo_then_CurrentPosition:
  assumes "ReadCapacity rb (Flush rb (ring_buf s)) = 0"
    and "s' = SeekToPositionMicroseconds rb s t"
  shows "CurrentPositionMicroseconds s' =
           av_PositionMicrosecondsForSampleCount (av s')
             (av_SampleCountForPositionMicroseconds (av s') t) \<and>
         ring_buf s' = Flush rb (ring_buf s) \<and>
         ReadCapacity rb (ring_buf s') = 0 \<and>
         frame s' = [] \<and> FrameFinished s' \<and> \<not> FileEnded s' \<and>
         ReadCapacity crb (ring_buf (SeekToPositionMicroseconds crb sc t)) = 0"
  using assms
  by (simp add: SeekToPositionMicroseconds_def CurrentPositionMicroseconds_def ClearFrame_def
      FrameFinished_def FileEnded_def Let_def crb_defs)

theorem SeekTo_then_CurrentPosition_witness:
  "ReadCapacity crb (Flush crb (ring_buf five_ended)) = 0 \<and>
   CurrentPositionMicroseconds (SeekToPositionMicroseconds crb five_ended 100) = 100 \<and>
   ReadCapacity crb (ring_buf (SeekToPositionMicroseconds crb five_ended 100)) = 0 \<and>
   frame (SeekToPositionMicroseconds crb five_ended 100) = [] \<and>
   \<not> FileEnded (SeekToPositionMicroseconds crb five_ended 100)"
proof -
  have a: "ReadCapacity crb (Flush crb (ring_buf five_ended)) = 0"
    by (simp add: crb_defs)
  have b: "av_PositionMicrosecondsForSampleCount
             (av (SeekToPositionMicroseconds crb five_ended 100))
             (av_SampleCountForPositionMicroseconds
                (av (SeekToPositionMicroseconds crb five_ended 100)) 100) = 100"
    by (simp add: SeekToPositionMicroseconds_def av_PositionMicrosecondsForSampleCount_def
        av_SampleCountForPositionMicroseconds_def av_SeekToPositionMicroseconds_def
        Let_def five_defs)
  from SeekTo_then_CurrentPosition [OF a refl, of 100] a b show ?thesis by simp
qed

subsection \<open>The callback\<close>

lemma paCallbackLoop_complete:
  assumes "ReadCapacity rb (ring_buf s) = 0" and "FileEnded s" and "k < n"
  shows "paCallbackLoop rb cout n (paContinue, k) mem s = ((paComplete, k), mem, s)"
  using assms
  by (subst paCallbackLoop.simps, simp add: PlayCallbackStep_def PlayCallbackFailure_def)
     (simp add: paCallbackLoop.simps)

lemma five_callback_loop:
  "paCallbackLoop crb 0 6 (paContinue, 0) out6 five_ended =
     ((paComplete, 5), [1, 2, 3, 4, 5, 6, 7, 8, 9, 10, 251, 252], five_drained)"
proof -
  have a: "ReadCapacity crb (ring_buf five_drained) = 0"
    by (simp add: crb_defs five_drained_def)
  have b: "FileEnded five_drained"
    by (simp add: FileEnded_def five_drained_def five_ended_def)
  have "paCallbackLoop crb 0 6 (paContinue, 0) out6 five_ended =
        paCallbackLoop crb 0 6 (paContinue, 5)
          [1, 2, 3, 4, 5, 6, 7, 8, 9, 10, 251, 252] five_drained"
    by (subst paCallbackLoop.simps) (simp add: five_step_1)
  also have "\<dots> = ((paComplete, 5), [1, 2, 3, 4, 5, 6, 7, 8, 9, 10, 251, 252], five_drained)"
    using paCallbackLoop_complete [OF a b, of 5 6] by simp
  finally show ?thesis .
qed

text \<open>
  Claim C8: when the loop of the callback stands at a state whose ring buffer has nothing
  to read and whose stream-ended flag is set, with \<open>k\<close> of the \<open>n\<close> requested frames
  supplied, the callback ends with \<^verbatim>\<open>paComplete\<close> and leaves the destination buffer, the
  supplied count and the engine as they are (first conjunct). In the worked example of
  the specification (one frame of five samples, then exhaustion, six frames requested)
  the callback copies the five samples to the start of the buffer, leaves the sixth
  frame untouched and returns \<^verbatim>\<open>paComplete\<close> with five frames supplied.
\<close>

theorem callback_complete:
  "(ReadCapacity rb (ring_buf s) = 0 \<and> FileEnded s \<and> k < n
      \<longrightarrow> paCallbackLoop rb cout n (paContinue, k) mem s = ((paComplete, k), mem, s)) \<and>
   Update crb five_new = Inr (True, five_filled) \<and>
   Update crb five_filled = Inr (False, five_ended) \<and>
   paCallbackLoop crb 0 6 (paContinue, 0) out6 five_ended =
     ((paComplete, 5), [1, 2, 3, 4, 5, 6, 7, 8, 9, 10, 251, 252], five_drained) \<and>
   paCallbackFun crb out6 6 five_ended =
     (paComplete, [1, 2, 3, 4, 5, 6, 7, 8, 9, 10, 251, 252], five_drained)"
  using paCallbackLoop_complete [of rb s k n cout mem]
  by (simp add: five_Update_1 five_Update_2 five_callback_loop paCallbackFun_def)

theorem callback_complete_witness:
  "ReadCapacity crb (ring_buf five_drained) = 0 \<and> FileEnded five_drained \<and> (5 :: ulong) < 6 \<and>
   paCallbackLoop crb 0 6 (paContinue, 5) [1, 2, 3, 4, 5, 6, 7, 8, 9, 10, 251, 252] five_drained =
     ((paComplete, 5), [1, 2, 3, 4, 5, 6, 7, 8, 9, 10, 251, 252], five_drained)"
proof -
  have a: "ReadCapacity crb (ring_buf five_drained) = 0"
    by (simp add: crb_defs five_drained_def)
  have b: "FileEnded five_drained"
    by (simp add: FileEnded_def five_drained_def five_ended_def)
  from callback_complete [of crb five_drained 5 6 0
      "[1, 2, 3, 4, 5, 6, 7, 8, 9, 10, 251, 252]", THEN conjunct1] a b
  show ?thesis by simp
qed

subsection \<open>Pre-filling\<close>

lemma five_prefill: "PreFillRingBuffer crb 8 4 five_new = Some (Inr (True, 3, five_filled))"
proof -
  have c0: "RingBufferWriteCapacity crb five_new = 8"
    and c1: "RingBufferWriteCapacity crb five_filled = 3"
    by (simp_all add: RingBufferWriteCapacity_def crb_defs five_defs)
  have "PreFillRingBuffer crb 8 4 five_new = PreFillLoop crb 8 4 True 3 five_filled"
    unfolding PreFillRingBuffer_def c0
    by (subst PreFillLoop.simps) (simp add: five_Update_1 u64_sub_examples c1)
  also have "\<dots> = Some (Inr (True, 3, five_filled))"
    by (subst PreFillLoop.simps) (simp add: u64_sub_examples)
  finally show ?thesis .
qed

lemma four_prefill: "PreFillRingBuffer crb 4 2 four_new = Some (Inr (True, 0, four_full))"
proof -
  have c0: "RingBufferWriteCapacity crb four_new = 4"
    and c1: "RingBufferWriteCapacity crb four_full = 0"
    by (simp_all add: RingBufferWriteCapacity_def crb_defs four_defs)
  have "PreFillRingBuffer crb 4 2 four_new = PreFillLoop crb 4 2 True 0 four_full"
    unfolding PreFillRingBuffer_def c0
    by (subst PreFillLoop.simps) (simp add: four_Update_1 u64_sub_examples c1)
  also have "\<dots> = Some (Inr (True, 0, four_full))"
    by (subst PreFillLoop.simps) simp
  finally show ?thesis .
qed

text \<open>
  Claim C9, as the specification states it: \<^verbatim>\<open>PreFillRingBuffer\<close> terminates for every
  decoder whose non-empty frames contain at least one whole sample, and the amount
  pre-filled is capped by the threshold. The first part fails for frames that end in
  part of a sample. Here every frame is three bytes long, one sample of two bytes and a
  half: the first \<^verbatim>\<open>Update\<close> writes the whole sample and leaves one byte in the frame;
  from then on the frame is not finished, the transfer count is zero, \<^verbatim>\<open>Update\<close>
  returns \<open>True\<close> and changes nothing, and with one of eight samples buffered and a
  threshold of four the loop never ends. The second part fails because the threshold is
  tested before an \<^verbatim>\<open>Update\<close>, not after: with a frame of five samples, a buffer of
  four samples and a threshold of two, the one \<^verbatim>\<open>Update\<close> of the pre-filling fills
  the whole buffer.
\<close>

theorem PreFillRingBuffer_diverges_counterexample:
  "frames (av stuck_new) = (\<lambda>n. [1, 2, 3]) \<and>
   0 < SampleCountForByteCount stuck_new (length [1, 2, 3 :: byte]) \<and>
   Update crb stuck_new = Inr (True, stuck_spinning) \<and>
   Update crb stuck_spinning = Inr (True, stuck_spinning) \<and>
   PreFillRingBuffer crb 8 4 stuck_new = None \<and>
   ReadCapacity crb (ring_buf four_new) = 0 \<and>
   ReadCapacity crb (ring_buf four_new) + WriteCapacity crb (ring_buf four_new) = 4 \<and>
   PreFillRingBuffer crb 4 2 four_new = Some (Inr (True, 0, four_full)) \<and>
   ReadCapacity crb (ring_buf four_full) = 4 \<and> \<not> (4 :: nat) \<le> 2"
proof -
  have "RingBufferWriteCapacity crb stuck_new = 8"
    by (simp add: RingBufferWriteCapacity_def crb_defs stuck_defs)
  moreover have "RingBufferWriteCapacity crb stuck_spinning = 7"
    by (simp add: RingBufferWriteCapacity_def crb_defs stuck_defs)
  ultimately have "PreFillRingBuffer crb 8 4 stuck_new =
                   PreFillLoop crb 8 4 True 7 stuck_spinning"
    unfolding PreFillRingBuffer_def
    by (subst PreFillLoop.simps) (simp add: stuck_Update_1 u64_sub_examples)
  then have "PreFillRingBuffer crb 8 4 stuck_new = None"
    by (simp add: stuck_loop)
  moreover have "frames (av stuck_new) = (\<lambda>n. [1, 2, 3])"
    and "0 < SampleCountForByteCount stuck_new (length [1, 2, 3 :: byte])"
    by (simp_all add: stuck_defs SampleCountForByteCount_def av_SampleCountForByteCount_def)
  moreover have "ReadCapacity crb (ring_buf four_new) = 0"
    and "ReadCapacity crb (ring_buf four_new) + WriteCapacity crb (ring_buf four_new) = 4"
    and "ReadCapacity crb (ring_buf four_full) = 4"
    by (simp_all add: crb_defs four_defs)
  ultimately show ?thesis
    by (simp add: stuck_Update_1 stuck_Update_2 four_prefill)
qed

text \<open>
  Claim C9, amended. The ring buffer holds \<^verbatim>\<open>RINGBUF_SIZE\<close> elements (its read and write
  capacity add up to it), writes in full every positive request within its write
  capacity, using up free space (\<open>write_honoured\<close>), and keeps the sum of its capacities
  (\<open>write_accounted\<close>); the format has at least one byte a sample, and what is left of
  the current frame and every frame the decoder yields is a whole number of samples
  (\<open>frame_whole\<close>); the threshold does not exceed the buffer size. Then
  \<^verbatim>\<open>PreFillRingBuffer\<close> terminates, without an error, after some number \<open>k\<close> of
  passes of its loop. When it stops, \<open>m\<close> being the value of \<^verbatim>\<open>more\<close> and \<open>c\<close> the
  write capacity last read, the filled amount \<^verbatim>\<open>RINGBUF_SIZE - c\<close> is the read capacity
  of the buffer, and either the last \<^verbatim>\<open>Update\<close> reported exhaustion or the filled amount
  has reached \<^verbatim>\<open>SPINUP_SIZE\<close>. The threshold caps the pre-filling in this sense: every
  pass of the loop, and so every \<^verbatim>\<open>Update\<close> that \<^verbatim>\<open>PreFillRingBuffer\<close> makes, starts
  with the filled amount below the threshold (and with \<^verbatim>\<open>more\<close> set and room in the
  buffer); only the last \<^verbatim>\<open>Update\<close> can carry the filled amount to the threshold or
  past it.
\<close>

theorem PreFillRingBuffer_terminates:
  assumes "write_honoured rb" and "write_accounted rb" and "frame_whole s"
    and "ReadCapacity rb (ring_buf s) + WriteCapacity rb (ring_buf s) = RINGBUF_SIZE"
    and "SPINUP_SIZE \<le> RINGBUF_SIZE" and "RINGBUF_SIZE < 2 ^ 64"
  shows "\<exists>k m c s'.
           PreFillRingBuffer rb RINGBUF_SIZE SPINUP_SIZE s = Some (Inr (m, c, s')) \<and>
           PreFillPasses rb k (True, RingBufferWriteCapacity rb s, s) = Inr (m, c, s') \<and>
           c = RingBufferWriteCapacity rb s' \<and>
           u64_sub RINGBUF_SIZE c = ReadCapacity rb (ring_buf s') \<and>
           RINGBUF_SIZE - c = ReadCapacity rb (ring_buf s') \<and>
           (\<not> m \<or> SPINUP_SIZE \<le> u64_sub RINGBUF_SIZE c) \<and>
           (\<forall>i<k. \<exists>mi ci si.
              PreFillPasses rb i (True, RingBufferWriteCapacity rb s, s) = Inr (mi, ci, si) \<and>
              mi \<and> 0 < ci \<and> ReadCapacity rb (ring_buf si) < SPINUP_SIZE)"
proof -
  from assms(4) have sum: "ReadCapacity rb (ring_buf s) + WriteCapacity rb (ring_buf s) =
                            RINGBUF_SIZE" .
  from PreFillLoop_passes [OF assms(1) assms(2) assms(5) assms(6) assms(3) refl sum, of True]
  obtain k m c s' where
    p: "PreFillLoop rb RINGBUF_SIZE SPINUP_SIZE True (WriteCapacity rb (ring_buf s)) s =
          Some (Inr (m, c, s'))"
    and q: "PreFillPasses rb k (True, WriteCapacity rb (ring_buf s), s) = Inr (m, c, s')"
    and c: "c = WriteCapacity rb (ring_buf s')"
    and t: "ReadCapacity rb (ring_buf s') + c = RINGBUF_SIZE"
    and e: "\<not> m \<or> SPINUP_SIZE \<le> ReadCapacity rb (ring_buf s')"
    and a: "\<forall>i<k. \<exists>mi ci si.
              PreFillPasses rb i (True, WriteCapacity rb (ring_buf s), s) = Inr (mi, ci, si) \<and>
              mi \<and> 0 < ci \<and> ReadCapacity rb (ring_buf si) < SPINUP_SIZE"
    by blast
  from t have cR: "c \<le> RINGBUF_SIZE" and d: "RINGBUF_SIZE - c = ReadCapacity rb (ring_buf s')"
    by simp_all
  from u64_sub_le [OF cR assms(6)] d
  have f: "u64_sub RINGBUF_SIZE c = ReadCapacity rb (ring_buf s')" by simp
  from p q c d f e a show ?thesis
    unfolding PreFillRingBuffer_def RingBufferWriteCapacity_def
    by - (rule exI [where x = k], rule exI [where x = m],
        rule exI [where x = c], rule exI [where x = s'], simp)
qed

text \<open>
  The witness: on the worked example, with a buffer of eight samples and a threshold of
  four, pre-filling stops after one pass, which started with nothing buffered, with five
  samples buffered.
\<close>

theorem PreFillRingBuffer_terminates_witness:
  "write_honoured crb \<and> write_accounted crb \<and> frame_whole five_new \<and>
   ReadCapacity crb (ring_buf five_new) + WriteCapacity crb (ring_buf five_new) = 8 \<and>
   (4 :: nat) \<le> 8 \<and> (8 :: nat) < 2 ^ 64 \<and>
   PreFillRingBuffer crb 8 4 five_new = Some (Inr (True, 3, five_filled)) \<and>
   PreFillPasses crb 1 (True, RingBufferWriteCapacity crb five_new, five_new) =
     Inr (True, 3, five_filled) \<and>
   RingBufferWriteCapacity crb five_filled = 3 \<and>
   ReadCapacity crb (ring_buf five_filled) = 5 \<and> u64_sub 8 3 = 5 \<and>
   ReadCapacity crb (ring_buf five_new) = 0"
proof -
  have w: "frame_whole five_new"
    by (simp add: frame_whole_def five_defs)
  have t: "ReadCapacity crb (ring_buf five_new) + WriteCapacity crb (ring_buf five_new) = 8"
    and r0: "ReadCapacity crb (ring_buf five_new) = 0"
    and r1: "ReadCapacity crb (ring_buf five_filled) = 5"
    by (simp_all add: crb_defs five_defs)
  have c0: "RingBufferWriteCapacity crb five_new = 8"
    and c1: "RingBufferWriteCapacity crb five_filled = 3"
    by (simp_all add: RingBufferWriteCapacity_def crb_defs five_defs)
  have q: "PreFillPasses crb 1 (True, RingBufferWriteCapacity crb five_new, five_new) =
             Inr (True, 3, five_filled)"
    by (simp add: PreFillPass_def five_Update_1 c1)
  from PreFillRingBuffer_terminates [OF crb_write_honoured crb_write_accounted w t, of 4]
  obtain k m c s' where
    "PreFillRingBuffer crb 8 4 five_new = Some (Inr (m, c, s'))"
    and "u64_sub 8 c = ReadCapacity crb (ring_buf s')"
    by auto
  with five_prefill r1 have "u64_sub 8 3 = 5" by simp
  with crb_write_honoured crb_write_accounted w t r0 r1 c1 q five_prefill
  show ?thesis by simp
qed

subsection \<open>The callback and the destination buffer\<close>

text \<open>
  Where a step writes: a drain step stores what \<^verbatim>\<open>Read\<close> returned at the pointer it was
  handed, an underrun step before the end of the stream clears
  \<^verbatim>\<open>ByteCountForSampleCount(frames_per_buf)\<close> bytes from that pointer. Neither offset
  depends on the count of frames already supplied, \<open>snd inp\<close>.
\<close>

lemma drain_step_destination:
  assumes "ReadCapacity rb (ring_buf s) \<noteq> 0"
    and "t = min (ReadCapacity rb (ring_buf s)) (min (unat (n - snd inp)) LONG_MAX)"
  shows "fst (snd (PlayCallbackStep rb out n inp mem s)) =
           poke mem out (snd (fst (Read rb (ring_buf s) t)))"
  using assms
  by (simp add: PlayCallbackStep_def PlayCallbackSuccess_def ReadSamplesToOutput_def Let_def
      split: prod.splits)

lemma underrun_step_destination:
  assumes "ReadCapacity rb (ring_buf s) = 0" and "\<not> FileEnded s"
  shows "PlayCallbackStep rb out n inp mem s =
           ((paContinue, n),
            poke mem out (replicate (ByteCountForSampleCount s (unat n)) 0), s)"
  using assms by (simp add: PlayCallbackStep_def PlayCallbackFailure_def)

text \<open>
  Claim C1 says that successive drain steps of one invocation store their samples one
  after the other in the destination buffer. The code hands every step the same pointer
  \<^verbatim>\<open>cout\<close>: \<^verbatim>\<open>ReadSamplesToOutput\<close> advances a reference to the copy that
  \<^verbatim>\<open>PlayCallbackSuccess\<close> received by value. Here one sample is buffered, the fill
  thread writes a second one after the first drain step, and two frames are requested:
  the second step stores its sample over the first one, and the second frame of the
  destination is never written.
\<close>

theorem paCallbackFun_second_drain_overwrites:
  "PlayCallbackStep racing 0 2 (paContinue, 0) out2 racing_start =
     ((paContinue, 1), [1, 2, 243, 244],
      racing_start\<lparr>ring_buf := (\<lparr>rb_size = 8, rb_elem = 2, rb_data = [[3, 4]]\<rparr>, []),
                   position_sample_count := 1\<rparr>) \<and>
   PlayCallbackStep racing 0 2 (paContinue, 1) [1, 2, 243, 244]
      (racing_start\<lparr>ring_buf := (\<lparr>rb_size = 8, rb_elem = 2, rb_data = [[3, 4]]\<rparr>, []),
                    position_sample_count := 1\<rparr>) =
     ((paContinue, 2), [3, 4, 243, 244], racing_done) \<and>
   paCallbackFun racing out2 2 racing_start = (paContinue, [3, 4, 243, 244], racing_done) \<and>
   fst (snd (paCallbackFun racing out2 2 racing_start)) \<noteq> [1, 2, 3, 4]"
  by (simp add: paCallbackFun_def paCallbackLoop.simps callback_defs racing_defs crb_defs
      Let_def)

text \<open>
  Claim C2 says that an underrun after \<open>k\<close> samples fills the remaining frames with
  silence and leaves the \<open>k\<close> samples in place. The code clears
  \<^verbatim>\<open>ByteCountForSampleCount(frames_per_buf)\<close> bytes from the pointer it was handed,
  which is the start of the buffer. Here one sample is buffered, the stream has not
  ended and two frames are requested: the sample that the first step stored is cleared
  by the second, although the play position has counted it.
\<close>

theorem paCallbackFun_underrun_clears_drained:
  "ReadCapacity crb (ring_buf tiny_full) = 1 \<and> \<not> FileEnded tiny_full \<and>
   paCallbackFun crb out2 2 tiny_full =
     (paContinue, [0, 0, 0, 0],
      tiny_full\<lparr>ring_buf := ring_buf tiny_new, position_sample_count := 1\<rparr>) \<and>
   fst (snd (paCallbackFun crb out2 2 tiny_full)) \<noteq> [1, 2, 0, 0]"
  by (simp add: paCallbackFun_def paCallbackLoop.simps callback_defs tiny_defs crb_defs
      Let_def out2_def replicate_4)

subsection \<open>The play position\<close>



end
